(* ===== verification/Prelude.thy ===== *)
theory Prelude
  imports Main "HOL-Library.Word"
begin

text \<open>
  Shared vocabulary of the development of \<^verbatim>\<open>src/embedPipelineShaders.py\<close>:
  the byte type of binary files, Python's exceptions as a datatype of values,
  the characters the code names, the collections of lemmas the component
  theories feed, and generic facts on bytes, lists and options that several
  components use.
\<close>

unbundle bit_operations_syntax

section \<open>Collections\<close>

text \<open>
  \<open>model_eval\<close> gathers the equations that evaluate the model on concrete
  inputs (table lookups, path and text helpers); \<open>byte_bits\<close> the facts that
  decide bitwise identities on single bytes.
\<close>

named_theorems model_eval "equations that evaluate the model on concrete inputs"
named_theorems byte_bits "facts deciding bitwise identities on bytes"

section \<open>Types of the model\<close>

text \<open>A byte of a binary file (Python's \<^verbatim>\<open>bytes\<close> element) is an 8-bit word.\<close>

type_synonym byte = "8 word"
type_synonym bytes = "byte list"

text \<open>
  The exceptions the modelled code can raise, with the file name Python
  attaches to them. \<^verbatim>\<open>FileNotFoundError\<close>, \<^verbatim>\<open>IsADirectoryError\<close> and
  \<^verbatim>\<open>NotADirectoryError\<close> are the \<^verbatim>\<open>OSError\<close> subclasses that \<^verbatim>\<open>open()\<close>
  raises for \<^verbatim>\<open>ENOENT\<close>, \<^verbatim>\<open>EISDIR\<close> and \<^verbatim>\<open>ENOTDIR\<close>.
\<close>

datatype py_exc =
    FileNotFoundError string
  | IsADirectoryError string
  | NotADirectoryError string

text \<open>Characters the source names by escape or as delimiters.\<close>

abbreviation LF :: char where "LF \<equiv> CHR 0x0A"
abbreviation CR :: char where "CR \<equiv> CHR 0x0D"

section \<open>Bytes\<close>

lemma byte_bit_high [byte_bits]: "8 \<le> n \<Longrightarrow> \<not> bit (c::byte) n"
  using bit_imp_le_length [of c n] by auto

lemma byte_eqI:
  assumes "\<And>n. n \<in> {0,1,2,3,4,5,6,7} \<Longrightarrow> bit (a::byte) n = bit b n"
  shows "a = b"
proof (rule bit_word_eqI)
  fix n
  assume "n < LENGTH(8)"
  then have "n \<in> {0,1,2,3,4,5,6,7}" by auto
  then show "bit a n = bit b n" by (rule assms)
qed

lemma unat_byte_less [simp]: "unat (w::byte) < 256"
proof -
  have "unat w < 2 ^ LENGTH(8)" by (rule unsigned_less)
  then show ?thesis by simp
qed

lemmas byte_bit_simps [byte_bits] =
  bit_simps numeral_2_eq_2 [symmetric] numeral_3_eq_3 [symmetric]

text \<open>Bytes and the characters of Isabelle's \<open>char\<close> type are in bijection.\<close>

definition char_of_byte :: "byte \<Rightarrow> char" where
  "char_of_byte b = char_of (unat b)"

definition byte_of_char :: "char \<Rightarrow> byte" where
  "byte_of_char c = of_nat (of_char c)"

lemma char_of_byte_of_char [simp]: "char_of_byte (byte_of_char c) = c"
  by (simp add: char_of_byte_def byte_of_char_def unat_of_nat)

lemma byte_of_char_of_byte [simp]: "byte_of_char (char_of_byte b) = b"
  using unat_byte_less [of b] by (simp add: char_of_byte_def byte_of_char_def of_char_of)

lemma map_byte_of_char_of_byte [simp]: "map byte_of_char (map char_of_byte bs) = bs"
  by (induction bs) simp_all

lemma map_char_of_byte_of_char [simp]: "map char_of_byte (map byte_of_char cs) = cs"
  by (induction cs) simp_all

section \<open>Lists\<close>

text \<open>
  Python slices \<^verbatim>\<open>s[i:j]\<close> with \<open>0 \<le> i \<le> j\<close>, as the regular-expression
  engine uses them for groups.
\<close>

definition slice :: "'a list \<Rightarrow> nat \<Rightarrow> nat \<Rightarrow> 'a list" where
  "slice s i j = take (j - i) (drop i s)"

lemma slice_append_adjacent:
  assumes "i \<le> j" and "j \<le> k"
  shows "slice s i j @ slice s j k = slice s i k"
proof -
  have k: "k - i = (j - i) + (k - j)" and d: "drop (j - i) (drop i s) = drop j s"
    using assms by simp_all
  show ?thesis unfolding slice_def k take_add d ..
qed

lemma length_slice [simp]: "length (slice s i j) = min (j - i) (length s - i)"
  by (simp add: slice_def)

lemma slice_nth: "k < j - i \<Longrightarrow> i + k < length s \<Longrightarrow> slice s i j ! k = s ! (i + k)"
  by (simp add: slice_def)

lemma set_slice_subset: "set (slice s i j) \<subseteq> set s"
  by (auto simp: slice_def dest: in_set_takeD in_set_dropD)

lemma slice_to_end [simp]: "length s \<le> j \<Longrightarrow> slice s i j = drop i s"
  by (simp add: slice_def)

lemma takeWhile_drop_nth:
  assumes "k < length (takeWhile P (drop i s))"
  shows "P (s ! (i + k))" and "i + k < length s"
proof -
  have "takeWhile P (drop i s) ! k = drop i s ! k"
    using assms by (rule takeWhile_nth)
  moreover have "takeWhile P (drop i s) ! k \<in> set (takeWhile P (drop i s))"
    using assms by (rule nth_mem)
  then have "P (takeWhile P (drop i s) ! k)"
    by (auto dest: set_takeWhileD)
  moreover have "k < length (drop i s)"
    using assms length_takeWhile_le [of P "drop i s"] by linarith
  ultimately show "P (s ! (i + k))" and "i + k < length s"
    by simp_all
qed

lemma takeWhile_drop_stop:
  assumes "i + length (takeWhile P (drop i s)) < length s"
  shows "\<not> P (s ! (i + length (takeWhile P (drop i s))))"
proof -
  let ?n = "length (takeWhile P (drop i s))"
  have "?n < length (drop i s)" using assms by simp
  then have "\<not> P (drop i s ! ?n)" by (rule nth_length_takeWhile)
  then show ?thesis using assms by simp
qed

end
