(* ===== verification/Stage_Table.thy ===== *)
theory Stage_Table
  imports Prelude
begin

text \<open>
  The fixed table \<^verbatim>\<open>STAGE_EXTENSIONS\<close> of \<^verbatim>\<open>src/embedPipelineShaders.py\<close>
  (lines 9--16), a Python dict from stage-type names to file extensions, and
  its lookup \<^verbatim>\<open>STAGE_EXTENSIONS.get(stage_type)\<close> with the truthiness test
  \<^verbatim>\<open>if not extension\<close> of line 47. The spec's enumerated stage type is the
  datatype \<open>stage\<close>, an instance of \<open>enum\<close>; the refinement lemmas say that the
  string table is exactly the image of that enumeration, so that the set of
  accepted stage-type tokens is closed.
\<close>

section \<open>The table as the code writes it\<close>

definition STAGE_EXTENSIONS :: "(string \<times> string) list" where
  "STAGE_EXTENSIONS =
     [(''vertex'', ''.vert.spv''),
      (''tessellationControl'', ''.tesc.spv''),
      (''tessellationEvaluation'', ''.tese.spv''),
      (''geometry'', ''.geom.spv''),
      (''fragment'', ''.frag.spv''),
      (''compute'', ''.comp.spv'')]"

text \<open>\<^verbatim>\<open>dict.get(key)\<close>: the value stored under the key, or \<^verbatim>\<open>None\<close>.\<close>

definition stage_extension_get :: "string \<Rightarrow> string option" where
  "stage_extension_get k = map_of STAGE_EXTENSIONS k"

text \<open>Python's \<^verbatim>\<open>not x\<close> for \<^verbatim>\<open>x\<close> a \<^verbatim>\<open>str\<close> or \<^verbatim>\<open>None\<close>.\<close>

definition py_not_str_opt :: "string option \<Rightarrow> bool" where
  "py_not_str_opt x = (case x of None \<Rightarrow> True | Some e \<Rightarrow> e = [])"

section \<open>The enumerated stage type of the spec\<close>

datatype stage =
    Vertex | TessellationControl | TessellationEvaluation | Geometry | Fragment | Compute

instantiation stage :: enum
begin

definition enum_stage :: "stage list" where
  "enum_stage =
     [Vertex, TessellationControl, TessellationEvaluation, Geometry, Fragment, Compute]"

definition enum_all_stage :: "(stage \<Rightarrow> bool) \<Rightarrow> bool" where
  "enum_all_stage P = list_all P enum_class.enum"

definition enum_ex_stage :: "(stage \<Rightarrow> bool) \<Rightarrow> bool" where
  "enum_ex_stage P = list_ex P enum_class.enum"

lemma UNIV_stage: "UNIV = set (enum_class.enum :: stage list)"
proof -
  have "x \<in> set (enum_class.enum :: stage list)" for x
    by (cases x) (simp_all add: enum_stage_def)
  then show ?thesis by blast
qed

instance
proof
  show "UNIV = set (enum_class.enum :: stage list)" by (rule UNIV_stage)
  show "distinct (enum_class.enum :: stage list)" by (simp add: enum_stage_def)
  show "enum_class.enum_all P = Ball UNIV P" for P :: "stage \<Rightarrow> bool"
    by (simp add: enum_all_stage_def UNIV_stage list_all_iff)
  show "enum_class.enum_ex P = Bex UNIV P" for P :: "stage \<Rightarrow> bool"
    by (simp add: enum_ex_stage_def UNIV_stage list_ex_iff)
qed

end

text \<open>The token that names a stage in a pipeline file, and its extension.\<close>

fun stage_name :: "stage \<Rightarrow> string" where
  "stage_name Vertex = ''vertex''"
| "stage_name TessellationControl = ''tessellationControl''"
| "stage_name TessellationEvaluation = ''tessellationEvaluation''"
| "stage_name Geometry = ''geometry''"
| "stage_name Fragment = ''fragment''"
| "stage_name Compute = ''compute''"

fun stage_ext :: "stage \<Rightarrow> string" where
  "stage_ext Vertex = ''.vert.spv''"
| "stage_ext TessellationControl = ''.tesc.spv''"
| "stage_ext TessellationEvaluation = ''.tese.spv''"
| "stage_ext Geometry = ''.geom.spv''"
| "stage_ext Fragment = ''.frag.spv''"
| "stage_ext Compute = ''.comp.spv''"

text \<open>Parsing a token into a stage: the spec's view of the table lookup.\<close>

definition stage_of_name :: "string \<Rightarrow> stage option" where
  "stage_of_name k = find (\<lambda>s. stage_name s = k) enum_class.enum"

section \<open>Lemmas\<close>

lemmas stage_table_defs [model_eval] =
  STAGE_EXTENSIONS_def stage_extension_get_def enum_stage_def stage_of_name_def

lemma STAGE_EXTENSIONS_enum:
  "STAGE_EXTENSIONS = map (\<lambda>s. (stage_name s, stage_ext s)) enum_class.enum"
  by (simp add: STAGE_EXTENSIONS_def enum_stage_def)

lemma stage_name_inj: "stage_name s = stage_name t \<longleftrightarrow> s = t"
  by (cases s; cases t) simp_all

lemma distinct_stage_keys: "distinct (map fst STAGE_EXTENSIONS)"
  by (simp add: STAGE_EXTENSIONS_def)

lemma stage_of_name_stage_name [simp]: "stage_of_name (stage_name s) = Some s"
  by (cases s) (simp_all add: stage_of_name_def enum_stage_def)

lemma stage_of_name_Some: "stage_of_name k = Some s \<Longrightarrow> k = stage_name s"
  by (auto simp: stage_of_name_def find_Some_iff)

lemma stage_of_name_None: "stage_of_name k = None \<longleftrightarrow> (\<forall>s. stage_name s \<noteq> k)"
  by (auto simp: stage_of_name_def find_None_iff UNIV_stage [symmetric])

text \<open>
  C14. The code's string table refines the spec's enumeration: looking a token
  up in \<^verbatim>\<open>STAGE_EXTENSIONS\<close> gives the extension of the stage the token
  names, and \<^verbatim>\<open>None\<close> exactly when it names none.
\<close>

theorem stage_extension_get_refines:
  "stage_extension_get k = map_option stage_ext (stage_of_name k)"
proof (cases "stage_of_name k")
  case None
  then have "\<forall>s. stage_name s \<noteq> k" by (simp add: stage_of_name_None)
  then have "k \<notin> set (map fst STAGE_EXTENSIONS)"
    by (auto simp: STAGE_EXTENSIONS_enum)
  with None show ?thesis
    by (simp add: stage_extension_get_def map_of_eq_None_iff)
next
  case (Some s)
  then have k: "k = stage_name s" by (rule stage_of_name_Some)
  have "(stage_name s, stage_ext s) \<in> set STAGE_EXTENSIONS"
    by (cases s) (simp_all add: STAGE_EXTENSIONS_def)
  then have "map_of STAGE_EXTENSIONS (stage_name s) = Some (stage_ext s)"
    using distinct_stage_keys by (rule map_of_is_SomeI [rotated])
  with Some k show ?thesis by (simp add: stage_extension_get_def)
qed

lemma stage_ext_nonempty [simp]: "stage_ext s \<noteq> []"
  by (cases s) simp_all

lemma stage_ext_shape: "\<exists>m. stage_ext s = CHR ''.'' # m @ ''.spv'' \<and> length m = 4 \<and> CHR ''.'' \<notin> set m"
  by (cases s) simp_all

lemma stage_ext_no_slash: "CHR ''/'' \<notin> set (stage_ext s)"
  by (cases s) simp_all

text \<open>Stage names are ASCII letters only (Python's \<^verbatim>\<open>string.ascii_letters\<close>).\<close>

definition ascii_letters :: string where
  "ascii_letters = ''abcdefghijklmnopqrstuvwxyzABCDEFGHIJKLMNOPQRSTUVWXYZ''"

lemma stage_name_letters: "set (stage_name s) \<subseteq> set ascii_letters"
  by (cases s) (simp_all add: ascii_letters_def)

lemma stage_name_nonempty [simp]: "stage_name s \<noteq> []"
  by (cases s) simp_all

text \<open>
  Every value of the table is a non-empty string, so the code's truthiness
  test \<^verbatim>\<open>if not extension\<close> is exactly the test for a missing key.
\<close>

lemma stage_extension_get_nonempty: "stage_extension_get k = Some e \<Longrightarrow> e \<noteq> []"
proof
  assume "stage_extension_get k = Some e" and "e = []"
  then have "(k, []) \<in> set STAGE_EXTENSIONS"
    unfolding stage_extension_get_def by (auto dest: map_of_SomeD)
  then show False by (auto simp: STAGE_EXTENSIONS_def)
qed

lemma py_not_stage_extension_get:
  "py_not_str_opt (stage_extension_get k) \<longleftrightarrow> stage_extension_get k = None"
  by (auto simp: py_not_str_opt_def dest: stage_extension_get_nonempty split: option.splits)

text \<open>Every value of the table is the extension of a stage.\<close>

lemma stage_extension_get_ext: "stage_extension_get k = Some e \<Longrightarrow> \<exists>st. e = stage_ext st"
proof -
  assume "stage_extension_get k = Some e"
  then have "(k, e) \<in> set STAGE_EXTENSIONS"
    unfolding stage_extension_get_def by (rule map_of_SomeD)
  then show ?thesis by (auto simp: STAGE_EXTENSIONS_enum)
qed


end
