(* ===== verification/Sre.thy ===== *)
theory Sre
  imports Prelude
begin

text \<open>
  The part of CPython's regular-expression engine (\<^verbatim>\<open>re\<close>, implemented by
  \<^verbatim>\<open>_sre\<close>) that \<^verbatim>\<open>src/embedPipelineShaders.py\<close> relies on at line 38
  (\<^verbatim>\<open>re.compile\<close>) and line 63 (\<^verbatim>\<open>stage_pattern.sub(replacer, content)\<close>).
  A compiled pattern is a list of \<^verbatim>\<open>_sre\<close> opcodes; the subset modelled is
  the one \<^verbatim>\<open>sre_compile\<close> emits for the stage pattern: \<^verbatim>\<open>LITERAL\<close>,
  \<^verbatim>\<open>MARK\<close> and \<^verbatim>\<open>REPEAT_ONE\<close> over a one-character item
  (\<^verbatim>\<open>NOT_LITERAL\<close> or the Unicode whitespace category). The matcher backtracks
  as \<^verbatim>\<open>SRE(match)\<close> does: \<^verbatim>\<open>REPEAT_ONE\<close> takes the longest run and then
  tries the rest of the pattern with one character fewer each time. The search
  tries every start position from left to right, with the
  \<^verbatim>\<open>must_advance\<close> rule that forbids an empty match where the previous
  match ended. Substitution, built on the search, is in \<open>Sre_Sub\<close>.
\<close>

section \<open>Opcodes\<close>

text \<open>
  \<^verbatim>\<open>\s\<close> in a \<^verbatim>\<open>str\<close> pattern is \<^verbatim>\<open>CATEGORY_UNI_SPACE\<close>, decided by
  \<^verbatim>\<open>Py_UNICODE_ISSPACE\<close>. On the code points U+0000 to U+00FF (the
  characters of the model) it holds for TAB, LF, VT, FF, CR, the four
  information separators U+001C to U+001F, SPACE, NEL (U+0085) and NBSP (U+00A0).
\<close>

definition is_uni_space :: "char \<Rightarrow> bool" where
  "is_uni_space c \<longleftrightarrow> of_char c \<in> ({9, 10, 11, 12, 13, 28, 29, 30, 31, 32, 133, 160} :: nat set)"

datatype sre_item = NOT_LITERAL char | IN_CATEGORY_UNI_SPACE

datatype sre_op = LITERAL char | MARK nat | REPEAT_ONE nat sre_item

type_synonym sre_marks = "nat \<Rightarrow> nat option"

fun sre_item_ok :: "sre_item \<Rightarrow> char \<Rightarrow> bool" where
  "sre_item_ok (NOT_LITERAL c) x \<longleftrightarrow> x \<noteq> c"
| "sre_item_ok IN_CATEGORY_UNI_SPACE x \<longleftrightarrow> is_uni_space x"

text \<open>\<^verbatim>\<open>SRE(count)\<close>: how many characters from position \<open>i\<close> on the item accepts.\<close>

definition sre_count :: "sre_item \<Rightarrow> string \<Rightarrow> nat \<Rightarrow> nat" where
  "sre_count it s i = length (takeWhile (sre_item_ok it) (drop i s))"

section \<open>The backtracking matcher\<close>

text \<open>
  \<open>sre_match p s i m adv\<close> runs the opcodes \<open>p\<close> on the string \<open>s\<close> from
  position \<open>i\<close> with the marks \<open>m\<close>, returning the end position and the marks
  of the first successful path. \<open>adv = Some st\<close> is \<^verbatim>\<open>must_advance\<close> with
  \<^verbatim>\<open>state->start = st\<close>: the final \<^verbatim>\<open>SUCCESS\<close> fails at \<open>st\<close>, so that no
  empty match is found there. \<open>sre_repeat\<close> is the loop of \<^verbatim>\<open>REPEAT_ONE\<close>,
  from the longest count \<open>c\<close> down to the minimum \<open>mn\<close>.
\<close>

fun sre_match :: "sre_op list \<Rightarrow> string \<Rightarrow> nat \<Rightarrow> sre_marks \<Rightarrow> nat option
    \<Rightarrow> (nat \<times> sre_marks) option"
and sre_repeat :: "sre_op list \<Rightarrow> string \<Rightarrow> nat \<Rightarrow> sre_marks \<Rightarrow> nat option
    \<Rightarrow> nat \<Rightarrow> nat \<Rightarrow> (nat \<times> sre_marks) option" where
  "sre_match [] s i m adv = (if adv = Some i then None else Some (i, m))"
| "sre_match (LITERAL c # p) s i m adv =
     (if i < length s \<and> s ! i = c then sre_match p s (Suc i) m adv else None)"
| "sre_match (MARK k # p) s i m adv = sre_match p s i (m(k \<mapsto> i)) adv"
| "sre_match (REPEAT_ONE mn it # p) s i m adv =
     (let n = sre_count it s i in
      if n < mn then None else sre_repeat p s i m adv mn n)"
| "sre_repeat p s i m adv mn c =
     (case sre_match p s (i + c) m adv of
        Some r \<Rightarrow> Some r
      | None \<Rightarrow> if c \<le> mn then None else sre_repeat p s i m adv mn (c - 1))"

text \<open>
  The equation of \<open>sre_repeat\<close> unfolds without end once its \<open>if\<close> is split
  on a symbolic count; it is used by name, for one count at a time.
\<close>

declare sre_repeat.simps [simp del]

section \<open>Search\<close>

text \<open>
  \<^verbatim>\<open>SRE(search)\<close>: the first start position \<open>b \<ge> i\<close> at which the pattern
  matches, with the end of that match and its marks. The position
  \<open>length s\<close> is tried too. \<open>ma\<close> is \<^verbatim>\<open>must_advance\<close>; it only concerns
  the first position tried.
\<close>

function sre_search :: "sre_op list \<Rightarrow> string \<Rightarrow> nat \<Rightarrow> bool
    \<Rightarrow> (nat \<times> nat \<times> sre_marks) option" where
  "sre_search p s i ma =
     (if length s < i then None
      else case sre_match p s i Map.empty (if ma then Some i else None) of
             Some (e, m) \<Rightarrow> Some (i, e, m)
           | None \<Rightarrow> sre_search p s (Suc i) False)"
  by pat_completeness auto
termination
  by (relation "measure (\<lambda>(p, s, i, ma). Suc (length s) - i)") auto

declare sre_search.simps [simp del]

section \<open>Bounds of a match\<close>

lemma sre_count_le: "sre_count it s i \<le> length s - i"
  unfolding sre_count_def using length_takeWhile_le [of _ "drop i s"] by simp

lemma sre_match_bounds:
  "sre_match p s i m adv = Some (e, m') \<Longrightarrow> i \<le> e \<and> (i \<le> length s \<longrightarrow> e \<le> length s)"
  "sre_repeat p s i m adv mn c = Some (e, m') \<Longrightarrow> i \<le> e \<and> (i + c \<le> length s \<longrightarrow> e \<le> length s)"
proof (induction p s i m adv and p s i m adv mn c arbitrary: e m' and e m'
    rule: sre_match_sre_repeat.induct)
  case (4 mn it p s i m adv)
  then show ?case
    using sre_count_le [of it s i] by (auto simp: Let_def split: if_splits)
next
  case (5 p s i m adv mn c)
  then show ?case
    by (fastforce simp: sre_repeat.simps [of p s i m adv mn c] split: option.splits if_splits)
qed (auto split: if_splits)

text \<open>Under \<^verbatim>\<open>must_advance\<close> no match ends where the search started.\<close>

lemma sre_match_advances:
  "sre_match p s i m (Some st) = Some (e, m') \<Longrightarrow> e \<noteq> st"
  "sre_repeat p s i m (Some st) mn c = Some (e, m') \<Longrightarrow> e \<noteq> st"
proof (induction p s i m "Some st" and p s i m "Some st" mn c arbitrary: e m' and e m'
    rule: sre_match_sre_repeat.induct)
  case (5 p s i m mn c)
  then show ?case
    by (auto simp: sre_repeat.simps [of p s i m "Some st" mn c] split: if_splits option.splits)
qed (auto simp: Let_def split: if_splits)

lemma sre_search_bounds:
  assumes "sre_search p s i ma = Some (b, e, m)"
  shows "i \<le> b \<and> b \<le> e \<and> e \<le> length s \<and> (ma \<and> b = i \<longrightarrow> e \<noteq> i)"
  using assms
proof (induction p s i ma rule: sre_search.induct)
  case (1 p s i ma)
  show ?case
  proof (cases "length s < i")
    case True
    with "1.prems" show ?thesis by (simp add: sre_search.simps [of p s i ma])
  next
    case False
    show ?thesis
    proof (cases "sre_match p s i Map.empty (if ma then Some i else None)")
      case None
      with False "1.prems" have "sre_search p s (Suc i) False = Some (b, e, m)"
        by (simp add: sre_search.simps [of p s i ma])
      with False None "1.IH" show ?thesis by fastforce
    next
      case (Some r)
      with False "1.prems" obtain m0 where
        r: "sre_match p s i Map.empty (if ma then Some i else None) = Some (e, m0)" and "b = i"
        by (cases r) (simp add: sre_search.simps [of p s i ma])
      moreover have "ma \<longrightarrow> e \<noteq> i"
        using r sre_match_advances(1) [of p s i Map.empty i e m0] by auto
      ultimately show ?thesis
        using False sre_match_bounds(1) [OF r] by auto
    qed
  qed
qed

section \<open>Laws of the matcher\<close>

text \<open>Runs counted by \<open>sre_count\<close>: every counted character is accepted, the next is not.\<close>

lemma sre_count_nth:
  assumes "k < sre_count it s i"
  shows "i + k < length s" and "sre_item_ok it (s ! (i + k))"
  using assms takeWhile_drop_nth [of k "sre_item_ok it" i s] by (simp_all add: sre_count_def)

lemma sre_count_stop:
  "i + sre_count it s i < length s \<Longrightarrow> \<not> sre_item_ok it (s ! (i + sre_count it s i))"
  unfolding sre_count_def by (rule takeWhile_drop_stop)

lemma sre_count_skip:
  assumes "\<And>k. k < d \<Longrightarrow> i + k < length s \<and> sre_item_ok it (s ! (i + k))"
  shows "sre_count it s i = d + sre_count it s (i + d)"
proof -
  have all: "\<forall>x \<in> set (take d (drop i s)). sre_item_ok it x"
    using assms by (auto simp: in_set_conv_nth add.commute)
  have len: "length (take d (drop i s)) = d"
    using assms [of "d - 1"] by (cases d) auto
  have "drop i s = take d (drop i s) @ drop (i + d) s"
    by (metis append_take_drop_id drop_drop add.commute)
  then have "takeWhile (sre_item_ok it) (drop i s)
      = take d (drop i s) @ takeWhile (sre_item_ok it) (drop (i + d) s)"
    using all by (metis takeWhile_append2)
  then show ?thesis using len by (simp add: sre_count_def)
qed

text \<open>A literal prefix of the pattern matches the same text in the subject.\<close>

lemma sre_match_literals:
  "sre_match (map LITERAL w @ p) s i m adv =
     (if take (length w) (drop i s) = w then sre_match p s (i + length w) m adv else None)"
proof (induction w arbitrary: i)
  case Nil
  then show ?case by simp
next
  case (Cons c w)
  show ?case
  proof (cases "i < length s")
    case True
    then have "take (length (c # w)) (drop i s) = s ! i # take (length w) (drop (Suc i) s)"
      by (subst Cons_nth_drop_Suc [symmetric]) simp_all
    with True Cons.IH [of "Suc i"] show ?thesis by auto
  next
    case False
    then show ?thesis by simp
  qed
qed

text \<open>
  The loop of \<^verbatim>\<open>REPEAT_ONE\<close>: when the rest of the pattern fails after every
  count, the repeat fails; when it fails after every count below the longest,
  the repeat is the rest of the pattern after the longest run.
\<close>

lemma sre_repeat_None:
  "mn \<le> c \<Longrightarrow> (\<And>k. mn \<le> k \<Longrightarrow> k \<le> c \<Longrightarrow> sre_match p s (i + k) m adv = None)
    \<Longrightarrow> sre_repeat p s i m adv mn c = None"
proof (induction c)
  case 0
  then have "mn = 0" and "sre_match p s i m adv = None" by simp_all
  then show ?case by (simp add: sre_repeat.simps [of p s i m adv 0 0])
next
  case (Suc c)
  have top: "sre_match p s (i + Suc c) m adv = None"
    using Suc.prems(1) by (rule Suc.prems(2)) simp
  show ?case
  proof (cases "mn \<le> c")
    case True
    with Suc have "sre_repeat p s i m adv mn c = None" by simp
    with top show ?thesis by (simp add: sre_repeat.simps [of p s i m adv mn "Suc c"])
  next
    case False
    with top Suc.prems(1) show ?thesis by (simp add: sre_repeat.simps [of p s i m adv mn "Suc c"])
  qed
qed

lemma sre_repeat_longest:
  assumes "mn \<le> c"
    and "\<And>k. mn \<le> k \<Longrightarrow> k < c \<Longrightarrow> sre_match p s (i + k) m adv = None"
  shows "sre_repeat p s i m adv mn c = sre_match p s (i + c) m adv"
proof (cases "c \<le> mn")
  case True
  then show ?thesis
    by (simp add: sre_repeat.simps [of p s i m adv mn c] split: option.split)
next
  case False
  have "sre_repeat p s i m adv mn (c - 1) = None"
    using assms(2) False by (intro sre_repeat_None) simp_all
  with False show ?thesis
    by (simp add: sre_repeat.simps [of p s i m adv mn c] split: option.split)
qed

text \<open>
  The idiom \<^verbatim>\<open>[^x]+x\<close> with a mark before the \<^verbatim>\<open>x\<close>: it matches when
  the run of non-\<open>x\<close> characters is non-empty and an \<open>x\<close> follows it.
\<close>

lemma sre_match_run_upto:
  assumes "\<forall>st. adv = Some st \<longrightarrow> st \<le> j"
  shows "sre_match (REPEAT_ONE 1 (NOT_LITERAL x) # MARK k # LITERAL x # p) s j m adv =
     (let n = sre_count (NOT_LITERAL x) s j in
      if 0 < n \<and> j + n < length s then sre_match p s (Suc (j + n)) (m(k \<mapsto> j + n)) adv
      else None)"
proof -
  let ?n = "sre_count (NOT_LITERAL x) s j"
  let ?t = "MARK k # LITERAL x # p"
  have short: "sre_match ?t s (j + q) m adv = None" if "q < ?n" for q
    using sre_count_nth [OF that] by simp
  show ?thesis
  proof (cases "0 < ?n")
    case True
    then have "sre_repeat ?t s j m adv 1 ?n = sre_match ?t s (j + ?n) m adv"
      using short by (intro sre_repeat_longest) simp_all
    moreover have "j + ?n < length s \<Longrightarrow> s ! (j + ?n) = x"
      using sre_count_stop [of j "NOT_LITERAL x" s] by simp
    ultimately show ?thesis using True by (simp add: Let_def)
  next
    case False
    then show ?thesis by (simp add: Let_def)
  qed
qed

end
