(* ===== verification/Sre_Sub.thy ===== *)
theory Sre_Sub
  imports Sre
begin

text \<open>
  \<^verbatim>\<open>pattern.sub(repl, string)\<close> with a callable replacement, as
  \<^verbatim>\<open>src/embedPipelineShaders.py\<close> calls it at line 63: the loop of
  CPython's \<^verbatim>\<open>pattern_subx\<close> over the search of \<open>Sre\<close>, match objects
  and \<^verbatim>\<open>match.group\<close>. The replacement callback is a parameter that
  returns its text or raises, together with the lines it printed. The laws
  proved here relate the loop to a reference definition: the list of the
  matches \<^verbatim>\<open>finditer\<close> would give, with every match replaced by the
  callback's text.
\<close>

section \<open>Match objects\<close>

record sre_match_obj =
  mo_string :: string
  mo_start :: nat
  mo_end :: nat
  mo_marks :: sre_marks

text \<open>
  \<^verbatim>\<open>match.group(g)\<close>: group 0 is the whole match; group \<open>g > 0\<close> lies
  between marks \<open>2g - 2\<close> and \<open>2g - 1\<close>, and is \<^verbatim>\<open>None\<close> when the group did
  not take part in the match.
\<close>

definition match_group :: "sre_match_obj \<Rightarrow> nat \<Rightarrow> string option" where
  "match_group mo g =
     (if g = 0 then Some (slice (mo_string mo) (mo_start mo) (mo_end mo))
      else case (mo_marks mo (2 * g - 2), mo_marks mo (2 * g - 1)) of
             (Some a, Some b) \<Rightarrow> Some (slice (mo_string mo) a b)
           | _ \<Rightarrow> None)"

section \<open>Substitution\<close>

text \<open>
  The loop of \<^verbatim>\<open>pattern_subx\<close> with a callable replacement and no count
  limit: search from the end \<open>i\<close> of the previous match, copy the text
  before the new match, append what the callback returns, and go on from the
  end of the match, with \<^verbatim>\<open>must_advance\<close> set when that match was empty.
  An exception of the callback ends the loop and propagates; the lines the
  callbacks printed are collected in order either way.
\<close>

function sre_sub_loop :: "sre_op list \<Rightarrow> (sre_match_obj \<Rightarrow> ('e + string) \<times> 'l list)
    \<Rightarrow> string \<Rightarrow> nat \<Rightarrow> bool \<Rightarrow> ('e + string) \<times> 'l list" where
  "sre_sub_loop p f s i ma =
     (case sre_search p s i ma of
        None \<Rightarrow> (Inr (drop i s), [])
      | Some (b, e, m) \<Rightarrow>
          (case f \<lparr>mo_string = s, mo_start = b, mo_end = e, mo_marks = m\<rparr> of
             (Inl x, out) \<Rightarrow> (Inl x, out)
           | (Inr item, out) \<Rightarrow>
               (case sre_sub_loop p f s e (e = b) of
                  (r, out') \<Rightarrow> (map_sum id (\<lambda>rest. slice s i b @ item @ rest) r, out @ out'))))"
  by pat_completeness auto
termination
proof (relation "measure (\<lambda>(p, f, s, i, ma). 2 * (Suc (length s) - i) + (if ma then 0 else 1))")
  fix p f s i ma bem b em e m r out item
  assume "sre_search p s i ma = Some bem" and "(b, em) = bem" and "(e, m) = em"
    and "(r, out) = f \<lparr>mo_string = s, mo_start = b, mo_end = e, mo_marks = m\<rparr>"
    and "r = Inr item"
  then have "sre_search p s i ma = Some (b, e, m)" by simp
  then have "i \<le> b \<and> b \<le> e \<and> e \<le> length s \<and> (ma \<and> b = i \<longrightarrow> e \<noteq> i)"
    by (rule sre_search_bounds)
  then show "((p, f, s, e, e = b), p, f, s, i, ma)
      \<in> measure (\<lambda>(p, f, s, i, ma). 2 * (Suc (length s) - i) + (if ma then 0 else 1))"
    by auto
qed simp

declare sre_sub_loop.simps [simp del]

text \<open>\<^verbatim>\<open>pattern.sub(repl, string)\<close>.\<close>

definition sre_sub :: "sre_op list \<Rightarrow> (sre_match_obj \<Rightarrow> ('e + string) \<times> 'l list)
    \<Rightarrow> string \<Rightarrow> ('e + string) \<times> 'l list" where
  "sre_sub p f s = sre_sub_loop p f s 0 False"

section \<open>The reference: the matches and their replacements\<close>

text \<open>
  The matches \<^verbatim>\<open>pattern.finditer(string)\<close> yields: the same search
  from the end of the previous match, with \<^verbatim>\<open>must_advance\<close> after an
  empty one.
\<close>

function sre_finditer :: "sre_op list \<Rightarrow> string \<Rightarrow> nat \<Rightarrow> bool \<Rightarrow> (nat \<times> nat \<times> sre_marks) list" where
  "sre_finditer p s i ma =
     (case sre_search p s i ma of
        None \<Rightarrow> []
      | Some (b, e, m) \<Rightarrow> (b, e, m) # sre_finditer p s e (e = b))"
  by pat_completeness auto
termination
proof (relation "measure (\<lambda>(p, s, i, ma). 2 * (Suc (length s) - i) + (if ma then 0 else 1))")
  fix p s i ma bem b em e m
  assume "sre_search p s i ma = Some bem" and "(b, em) = bem" and "(e, m) = em"
  then have "i \<le> b \<and> b \<le> e \<and> e \<le> length s \<and> (ma \<and> b = i \<longrightarrow> e \<noteq> i)"
    using sre_search_bounds by blast
  then show "((p, s, e, e = b), p, s, i, ma)
      \<in> measure (\<lambda>(p, s, i, ma). 2 * (Suc (length s) - i) + (if ma then 0 else 1))"
    by auto
qed simp

declare sre_finditer.simps [simp del]

text \<open>The match object of a match.\<close>

definition mo_of :: "string \<Rightarrow> nat \<times> nat \<times> sre_marks \<Rightarrow> sre_match_obj" where
  "mo_of s x = (case x of (b, e, m) \<Rightarrow> \<lparr>mo_string = s, mo_start = b, mo_end = e, mo_marks = m\<rparr>)"

text \<open>
  The text with the matches replaced: the text before each match, its
  replacement, and the rest after the last match.
\<close>

fun sub_splice :: "string \<Rightarrow> nat \<Rightarrow> (nat \<times> nat \<times> sre_marks) list \<Rightarrow> string list \<Rightarrow> string" where
  "sub_splice s i ((b, e, m) # ms) (r # rs) = slice s i b @ r @ sub_splice s e ms rs"
| "sub_splice s i ms rs = drop i s"

section \<open>Laws of substitution\<close>

lemma slice_drop_join:
  assumes "i \<le> b" and "b \<le> e" and "e \<le> length s"
  shows "slice s i b @ slice s b e @ drop e s = drop i s"
proof -
  have "slice s i b @ slice s b e = slice s i e"
    using assms by (simp add: slice_append_adjacent)
  moreover have "slice s i e @ drop e s = drop i s"
  proof -
    have d: "drop e s = drop (e - i) (drop i s)" using assms by simp
    show ?thesis unfolding slice_def d by (rule append_take_drop_id)
  qed
  ultimately show ?thesis by (metis append.assoc)
qed

lemma sre_sub_loop_no_match:
  "sre_search p s i ma = None \<Longrightarrow> sre_sub_loop p f s i ma = (Inr (drop i s), [])"
  by (simp add: sre_sub_loop.simps [of p f s i ma])

text \<open>One step of the loop: the text before the match, the replacement, then the rest.\<close>

lemma sre_sub_loop_step:
  assumes "sre_search p s i ma = Some (b, e, m)"
    and "f \<lparr>mo_string = s, mo_start = b, mo_end = e, mo_marks = m\<rparr> = (Inr item, out)"
  shows "sre_sub_loop p f s i ma =
    (map_sum id (\<lambda>rest. slice s i b @ item @ rest) (fst (sre_sub_loop p f s e (e = b))),
     out @ snd (sre_sub_loop p f s e (e = b)))"
  using assms by (simp add: sre_sub_loop.simps [of p f s i ma] split: prod.split)

lemma sre_sub_loop_raise:
  assumes "sre_search p s i ma = Some (b, e, m)"
    and "f \<lparr>mo_string = s, mo_start = b, mo_end = e, mo_marks = m\<rparr> = (Inl x, out)"
  shows "sre_sub_loop p f s i ma = (Inl x, out)"
  using assms by (simp add: sre_sub_loop.simps [of p f s i ma])

text \<open>A callback that gives back the text of each match makes the substitution the identity.\<close>

lemma sre_sub_loop_keep:
  "(\<And>b e m. fst (f \<lparr>mo_string = s, mo_start = b, mo_end = e, mo_marks = m\<rparr>) = Inr (slice s b e))
   \<Longrightarrow> fst (sre_sub_loop p f s i ma) = Inr (drop i s)"
proof (induction p f s i ma rule: sre_sub_loop.induct)
  case (1 p f s i ma)
  show ?case
  proof (cases "sre_search p s i ma")
    case None
    then show ?thesis by (simp add: sre_sub_loop.simps [of p f s i ma])
  next
    case (Some r)
    obtain b e m where r: "r = (b, e, m)" by (cases r) auto
    have bnd: "i \<le> b \<and> b \<le> e \<and> e \<le> length s"
      using sre_search_bounds Some r by blast
    obtain out where fo: "f \<lparr>mo_string = s, mo_start = b, mo_end = e, mo_marks = m\<rparr> = (Inr (slice s b e), out)"
      using "1.prems" [of b e m] by (cases "f \<lparr>mo_string = s, mo_start = b, mo_end = e, mo_marks = m\<rparr>") auto
    have IH: "fst (sre_sub_loop p f s e (e = b)) = Inr (drop e s)"
      using "1.IH" [OF Some r [symmetric] refl fo [symmetric] refl] "1.prems" by blast
    then show ?thesis
      using Some r fo bnd slice_drop_join [of i b e s]
      by (auto simp: sre_sub_loop.simps [of p f s i ma] split: prod.split)
  qed
qed

text \<open>
  C15. A substitution whose callback returns, for every match, the matched
  text itself gives back the subject unchanged.
\<close>

theorem sre_sub_keep:
  "(\<And>b e m. fst (f \<lparr>mo_string = s, mo_start = b, mo_end = e, mo_marks = m\<rparr>) = Inr (slice s b e))
   \<Longrightarrow> fst (sre_sub p f s) = Inr s"
  using sre_sub_loop_keep [of f s p 0 False] by (simp add: sre_sub_def)

lemma sre_sub_no_match: "sre_search p s 0 False = None \<Longrightarrow> sre_sub p f s = (Inr s, [])"
  by (simp add: sre_sub_def sre_sub_loop_no_match)

theorem sre_sub_keep_witness:
  "fst (sre_sub [LITERAL CHR ''a'']
     (\<lambda>mo. (Inr (slice (mo_string mo) (mo_start mo) (mo_end mo)) :: unit + string, [] :: string list))
     ''banana'') = Inr ''banana''"
  using sre_sub_keep [of "\<lambda>mo. (Inr (slice (mo_string mo) (mo_start mo) (mo_end mo)) :: unit + string,
      [] :: string list)" "''banana''" "[LITERAL CHR ''a'']"]
  by simp

text \<open>The loop computes the reference, from any position.\<close>

lemma sre_sub_loop_finditer:
  assumes "\<And>mo. f mo = (Inr (g mo), h mo)"
  shows "sre_sub_loop p f s i ma =
    (Inr (sub_splice s i (sre_finditer p s i ma) (map (g \<circ> mo_of s) (sre_finditer p s i ma))),
     concat (map (h \<circ> mo_of s) (sre_finditer p s i ma)))"
proof (induction p s i ma rule: sre_finditer.induct)
  case (1 p s i ma)
  show ?case
  proof (cases "sre_search p s i ma")
    case None
    then show ?thesis
      by (simp add: sre_sub_loop.simps [of p f s i ma] sre_finditer.simps [of p s i ma])
  next
    case (Some r)
    obtain b e m where r: "r = (b, e, m)" by (cases r) auto
    have IH: "sre_sub_loop p f s e (e = b) =
      (Inr (sub_splice s e (sre_finditer p s e (e = b)) (map (g \<circ> mo_of s) (sre_finditer p s e (e = b)))),
       concat (map (h \<circ> mo_of s) (sre_finditer p s e (e = b))))"
      using "1.IH" [OF Some r [symmetric] refl] .
    have fo: "f \<lparr>mo_string = s, mo_start = b, mo_end = e, mo_marks = m\<rparr> =
        (Inr (g (mo_of s (b, e, m))), h (mo_of s (b, e, m)))"
      using assms by (simp add: mo_of_def)
    show ?thesis
      using Some r IH fo
      by (simp add: sre_sub_loop.simps [of p f s i ma] sre_finditer.simps [of p s i ma] comp_def)
  qed
qed


text \<open>A substitution whose callback never raises does not raise.\<close>

lemma sre_sub_total:
  assumes "\<And>mo. \<exists>r out. f mo = (Inr r, out)"
  shows "\<exists>r out. sre_sub p f s = (Inr r, out)"
proof -
  have "f mo = (Inr ((projr \<circ> fst \<circ> f) mo), (snd \<circ> f) mo)" for mo
    using assms [of mo] by auto
  then show ?thesis
    unfolding sre_sub_def by (subst sre_sub_loop_finditer) auto
qed

text \<open>
  C23. A substitution whose callback does not raise is the reference: every
  match \<^verbatim>\<open>finditer\<close> yields replaced by the callback's text, the text
  between matches kept, and the callbacks' printed lines in the order of the
  matches.
\<close>

theorem sre_sub_finditer:
  assumes "\<And>mo. f mo = (Inr (g mo), h mo)"
  shows "sre_sub p f s =
    (Inr (sub_splice s 0 (sre_finditer p s 0 False) (map (g \<circ> mo_of s) (sre_finditer p s 0 False))),
     concat (map (h \<circ> mo_of s) (sre_finditer p s 0 False)))"
  unfolding sre_sub_def using assms by (rule sre_sub_loop_finditer)

theorem sre_sub_finditer_witness:
  "sre_sub [LITERAL CHR ''a''] (\<lambda>mo. (Inr ''o'' :: unit + string, [mo_start mo])) ''banana'' =
     (Inr ''bonono'', [1, 3, 5])"
proof -
  have "sre_finditer [LITERAL CHR ''a''] ''banana'' 0 False =
      [(1, 2, Map.empty), (3, 4, Map.empty), (5, 6, Map.empty)]"
    by (simp add: sre_finditer.simps sre_search.simps)
  then show ?thesis
    using sre_sub_finditer [where f = "\<lambda>mo. (Inr ''o'' :: unit + string, [mo_start mo])"
        and g = "\<lambda>mo. ''o''" and h = "\<lambda>mo. [mo_start mo]" and p = "[LITERAL CHR ''a'']"
        and s = "''banana''"]
    by (simp add: mo_of_def slice_def)
qed

end
