(* ===== verification/Stage_Pattern.thy ===== *)
theory Stage_Pattern
  imports Sre_Sub "HOL-Library.Sublist"
begin

text \<open>
  The pattern of line 38 of \<^verbatim>\<open>src/embedPipelineShaders.py\<close>,
  \<^verbatim>\<open>addStage\(([^,]+),\s*([^\)]+)\)\<close>, as the opcode list
  \<^verbatim>\<open>sre_compile\<close> produces for it (the \<^verbatim>\<open>INFO\<close> prefix block, which only
  speeds up the search, left out). Group 1 lies between marks 0 and 1, group 2
  between marks 2 and 3.

  \<open>stage_call_at\<close> reads the pattern the way the spec describes a call site,
  in one pass without backtracking: the literal \<^verbatim>\<open>addStage(\<close>, the longest
  run without a comma, a comma, the longest run of whitespace, then the longest
  run without a closing parenthesis and a closing parenthesis. The one place
  where backtracking changes the outcome is a second argument that is empty
  after the whitespace (\<^verbatim>\<open>addStage(a, )\<close>): the engine gives the last
  whitespace character back to group 2. The main theorem of this theory is
  that the backtracking engine and this scanner agree on every input.
\<close>

section \<open>The compiled pattern\<close>

definition stage_pattern :: "sre_op list" where
  "stage_pattern =
     map LITERAL ''addStage('' @
     [MARK 0, REPEAT_ONE 1 (NOT_LITERAL CHR '',''), MARK 1,
      LITERAL CHR '','',
      REPEAT_ONE 0 IN_CATEGORY_UNI_SPACE,
      MARK 2, REPEAT_ONE 1 (NOT_LITERAL CHR '')''), MARK 3,
      LITERAL CHR '')'']"

section \<open>A single-pass scanner for call sites\<close>

text \<open>
  The second argument from position \<open>j\<close> (just after the comma): the start
  and end of group 2 and the end of the match.
\<close>

definition second_arg_at :: "string \<Rightarrow> nat \<Rightarrow> (nat \<times> nat \<times> nat) option" where
  "second_arg_at s j =
     (let st = j + sre_count IN_CATEGORY_UNI_SPACE s j;
          n = sre_count (NOT_LITERAL CHR '')'') s st in
      if 0 < n \<and> st + n < length s then Some (st, st + n, Suc (st + n))
      else if j < st \<and> n = 0 \<and> st < length s then Some (st - 1, st, Suc st)
      else None)"

text \<open>
  A call site starting at \<open>i\<close>: the bounds \<open>(a, c, g, h, e)\<close> of group 1
  (\<open>a..c\<close>), group 2 (\<open>g..h\<close>) and the end \<open>e\<close> of the match.
\<close>

definition stage_call_at :: "string \<Rightarrow> nat \<Rightarrow> (nat \<times> nat \<times> nat \<times> nat \<times> nat) option" where
  "stage_call_at s i =
     (let a = i + 9; c = a + sre_count (NOT_LITERAL CHR '','') s a in
      if take 9 (drop i s) = ''addStage('' \<and> a < c \<and> c < length s
      then map_option (\<lambda>(g, h, e). (a, c, g, h, e)) (second_arg_at s (Suc c))
      else None)"

text \<open>
  The search for the first call site at or after \<open>i\<close>, with the marks the
  engine records.
\<close>

function stage_search :: "string \<Rightarrow> nat \<Rightarrow> (nat \<times> nat \<times> sre_marks) option" where
  "stage_search s i =
     (if length s < i then None
      else case stage_call_at s i of
             Some (a, c, g, h, e) \<Rightarrow> Some (i, e, [0 \<mapsto> a, 1 \<mapsto> c, 2 \<mapsto> g, 3 \<mapsto> h])
           | None \<Rightarrow> stage_search s (Suc i))"
  by pat_completeness auto
termination
  by (relation "measure (\<lambda>(s, i). Suc (length s) - i)") auto

declare stage_search.simps [simp del]

section \<open>The engine on the stage pattern\<close>

lemma is_uni_space_not_paren [simp]: "\<not> is_uni_space CHR '')''"
  by (simp add: is_uni_space_def)

text \<open>After the whitespace run, every shorter count of \<^verbatim>\<open>\s*\<close> leaves a longer run for group 2.\<close>

lemma paren_run_after_space:
  assumes "k \<le> sre_count IN_CATEGORY_UNI_SPACE s j"
  shows "sre_count (NOT_LITERAL CHR '')'') s (j + k) =
     (sre_count IN_CATEGORY_UNI_SPACE s j - k)
     + sre_count (NOT_LITERAL CHR '')'') s (j + sre_count IN_CATEGORY_UNI_SPACE s j)"
proof -
  let ?w = "sre_count IN_CATEGORY_UNI_SPACE s j"
  have "sre_count (NOT_LITERAL CHR '')'') s (j + k) =
      (?w - k) + sre_count (NOT_LITERAL CHR '')'') s (j + k + (?w - k))"
  proof (rule sre_count_skip)
    fix q
    assume "q < ?w - k"
    then have "k + q < ?w" by simp
    from sre_count_nth [OF this] show "j + k + q < length s \<and> sre_item_ok (NOT_LITERAL CHR '')'') (s ! (j + k + q))"
      by (auto simp: add.assoc)
  qed
  with assms show ?thesis by simp
qed

text \<open>The tail of the pattern after the whitespace run, started inside that run.\<close>

lemma sre_match_paren_tail:
  assumes adv: "\<forall>st. adv = Some st \<longrightarrow> st \<le> j" and k: "k \<le> w"
    and w: "w = sre_count IN_CATEGORY_UNI_SPACE s j"
    and n: "n = sre_count (NOT_LITERAL CHR '')'') s (j + w)"
  shows "sre_match [MARK 2, REPEAT_ONE 1 (NOT_LITERAL CHR '')''), MARK 3, LITERAL CHR '')''] s (j + k) m adv =
    (if 0 < (w - k) + n \<and> j + w + n < length s
     then Some (Suc (j + w + n), m(2 \<mapsto> j + k, 3 \<mapsto> j + w + n)) else None)"
proof -
  let ?t = "[MARK 2, REPEAT_ONE 1 (NOT_LITERAL CHR '')''), MARK 3, LITERAL CHR '')'']"
  have adv_k: "\<forall>st. adv = Some st \<longrightarrow> st \<le> j + k" using adv by auto
  have end_ok: "adv \<noteq> Some (Suc (j + w + n))"
  proof
    assume "adv = Some (Suc (j + w + n))"
    with adv have "Suc (j + w + n) \<le> j" by blast
    then show False by simp
  qed
  have "sre_match ?t s (j + k) m adv = sre_match (tl ?t) s (j + k) (m(2 \<mapsto> j + k)) adv"
    by simp
  also have "\<dots> = (let n = sre_count (NOT_LITERAL CHR '')'') s (j + k) in
       if 0 < n \<and> j + k + n < length s
       then sre_match [] s (Suc (j + k + n)) (m(2 \<mapsto> j + k, 3 \<mapsto> j + k + n)) adv else None)"
    unfolding list.sel using adv_k by (rule sre_match_run_upto)
  also have "\<dots> = (if 0 < (w - k) + n \<and> j + w + n < length s
     then Some (Suc (j + w + n), m(2 \<mapsto> j + k, 3 \<mapsto> j + w + n)) else None)"
    using k end_ok w n by (simp add: paren_run_after_space [OF k [unfolded w]] Let_def add.assoc)
  finally show ?thesis .
qed

text \<open>The part of the pattern after the comma agrees with \<open>second_arg_at\<close>.\<close>

lemma sre_match_second_arg:
  assumes adv: "\<forall>st. adv = Some st \<longrightarrow> st \<le> j"
  shows "sre_match (drop 13 stage_pattern) s j m adv =
     map_option (\<lambda>(g, h, e). (e, m(2 \<mapsto> g, 3 \<mapsto> h))) (second_arg_at s j)"
proof -
  let ?w = "sre_count IN_CATEGORY_UNI_SPACE s j"
  let ?n = "sre_count (NOT_LITERAL CHR '')'') s (j + ?w)"
  let ?t = "[MARK 2, REPEAT_ONE 1 (NOT_LITERAL CHR '')''), MARK 3, LITERAL CHR '')'']"
  have at: "sre_match ?t s (j + k) m adv =
      (if 0 < (?w - k) + ?n \<and> j + ?w + ?n < length s
       then Some (Suc (j + ?w + ?n), m(2 \<mapsto> j + k, 3 \<mapsto> j + ?w + ?n)) else None)"
    if "k \<le> ?w" for k
    using sre_match_paren_tail [OF adv that refl refl] .
  have rep: "sre_match (drop 13 stage_pattern) s j m adv = sre_repeat ?t s j m adv 0 ?w"
    by (simp add: stage_pattern_def)
  show ?thesis
  proof (cases "0 < ?n \<and> j + ?w + ?n < length s")
    case True
    then have "sre_match ?t s (j + ?w) m adv = Some (Suc (j + ?w + ?n), m(2 \<mapsto> j + ?w, 3 \<mapsto> j + ?w + ?n))"
      using at [of ?w] by (simp del: sre_match.simps)
    then have "sre_repeat ?t s j m adv 0 ?w = Some (Suc (j + ?w + ?n), m(2 \<mapsto> j + ?w, 3 \<mapsto> j + ?w + ?n))"
      by (simp only: sre_repeat.simps [of ?t s j m adv 0 ?w] option.case)
    with True show ?thesis by (simp add: rep second_arg_at_def Let_def)
  next
    case False
    note no = False
    show ?thesis
    proof (cases "0 < ?w \<and> ?n = 0 \<and> j + ?w < length s")
      case True
      have top: "sre_match ?t s (j + ?w) m adv = None"
        using at [of ?w] True by (simp del: sre_match.simps)
      have "sre_match ?t s (j + (?w - 1)) m adv =
          Some (Suc (j + ?w), m(2 \<mapsto> j + ?w - 1, 3 \<mapsto> j + ?w))"
        using at [of "?w - 1"] True by (simp del: sre_match.simps)
      then have "sre_repeat ?t s j m adv 0 (?w - 1) = Some (Suc (j + ?w), m(2 \<mapsto> j + ?w - 1, 3 \<mapsto> j + ?w))"
        by (simp only: sre_repeat.simps [of ?t s j m adv 0 "?w - 1"] option.case)
      with top True have "sre_repeat ?t s j m adv 0 ?w = Some (Suc (j + ?w), m(2 \<mapsto> j + ?w - 1, 3 \<mapsto> j + ?w))"
        by (simp only: sre_repeat.simps [of ?t s j m adv 0 ?w] option.case) simp
      with True show ?thesis by (simp add: rep second_arg_at_def Let_def)
    next
      case False
      have "sre_repeat ?t s j m adv 0 ?w = None"
      proof (rule sre_repeat_None)
        fix k assume "k \<le> ?w"
        with no False show "sre_match ?t s (j + k) m adv = None"
          using at [of k] by (cases "k = ?w") (auto simp del: sre_match.simps)
      qed simp
      with no False show ?thesis
        by (auto simp: rep second_arg_at_def Let_def)
    qed
  qed
qed

text \<open>The first group of the pattern and the comma after it.\<close>

lemma sre_match_first_group:
  assumes "\<forall>st. adv = Some st \<longrightarrow> st \<le> a"
  shows "sre_match (MARK 0 # REPEAT_ONE 1 (NOT_LITERAL CHR '','') # MARK 1 # LITERAL CHR '','' # tail) s a m adv =
    (if a < a + sre_count (NOT_LITERAL CHR '','') s a \<and> a + sre_count (NOT_LITERAL CHR '','') s a < length s
     then sre_match tail s (Suc (a + sre_count (NOT_LITERAL CHR '','') s a))
       (m(0 \<mapsto> a, 1 \<mapsto> a + sre_count (NOT_LITERAL CHR '','') s a)) adv
     else None)"
proof -
  have "sre_match (MARK 0 # REPEAT_ONE 1 (NOT_LITERAL CHR '','') # MARK 1 # LITERAL CHR '','' # tail) s a m adv =
      sre_match (REPEAT_ONE 1 (NOT_LITERAL CHR '','') # MARK 1 # LITERAL CHR '','' # tail) s a (m(0 \<mapsto> a)) adv"
    by simp
  also have "\<dots> = (let n = sre_count (NOT_LITERAL CHR '','') s a in
      if 0 < n \<and> a + n < length s then sre_match tail s (Suc (a + n)) (m(0 \<mapsto> a, 1 \<mapsto> a + n)) adv
      else None)"
    using assms by (rule sre_match_run_upto)
  finally show ?thesis by (simp add: Let_def)
qed

text \<open>
  The backtracking engine, run on the compiled stage pattern from any
  position \<open>i\<close> (with \<^verbatim>\<open>must_advance\<close> at most at \<open>i\<close>, as the search
  uses it), matches exactly the call site the single-pass scanner finds there,
  with group 1 between marks 0 and 1 and group 2 between marks 2 and 3.
\<close>

lemma sre_match_stage_pattern:
  assumes adv: "\<forall>st. adv = Some st \<longrightarrow> st \<le> i"
  shows "sre_match stage_pattern s i m adv =
     map_option (\<lambda>(a, c, g, h, e). (e, m(0 \<mapsto> a, 1 \<mapsto> c, 2 \<mapsto> g, 3 \<mapsto> h)))
       (stage_call_at s i)"
proof -
  let ?a = "i + 9"
  let ?c = "?a + sre_count (NOT_LITERAL CHR '','') s ?a"
  let ?tail = "drop 13 stage_pattern"
  let ?g1 = "REPEAT_ONE 1 (NOT_LITERAL CHR '','') # MARK 1 # LITERAL CHR '','' # ?tail"
  have split: "stage_pattern = map LITERAL ''addStage('' @ MARK 0 # ?g1"
    by (simp add: stage_pattern_def)
  have adv_a: "\<forall>st. adv = Some st \<longrightarrow> st \<le> ?a" and adv_c: "\<forall>st. adv = Some st \<longrightarrow> st \<le> Suc ?c"
    using adv by auto
  have g1: "sre_match (MARK 0 # ?g1) s ?a m adv =
      (if ?a < ?c \<and> ?c < length s then sre_match ?tail s (Suc ?c) (m(0 \<mapsto> ?a, 1 \<mapsto> ?c)) adv
       else None)"
    using adv_a by (rule sre_match_first_group)
  have g2: "sre_match ?tail s (Suc ?c) (m(0 \<mapsto> ?a, 1 \<mapsto> ?c)) adv =
      map_option (\<lambda>(g, h, e). (e, m(0 \<mapsto> ?a, 1 \<mapsto> ?c, 2 \<mapsto> g, 3 \<mapsto> h))) (second_arg_at s (Suc ?c))"
    using adv_c by (rule sre_match_second_arg)
  define pfx where "pfx \<longleftrightarrow> take 9 (drop i s) = ''addStage(''"
  have pre: "sre_match stage_pattern s i m adv =
      (if pfx then sre_match (MARK 0 # ?g1) s ?a m adv else None)"
  proof -
    have len: "length ''addStage('' = 9" by simp
    show ?thesis unfolding pfx_def by (subst split) (simp only: sre_match_literals len)
  qed
  have call: "stage_call_at s i =
      (if pfx \<and> ?a < ?c \<and> ?c < length s
       then map_option (\<lambda>(g, h, e). (?a, ?c, g, h, e)) (second_arg_at s (Suc ?c)) else None)"
    unfolding pfx_def stage_call_at_def Let_def ..
  show ?thesis
  proof (cases "pfx \<and> ?a < ?c \<and> ?c < length s")
    case True
    then have "sre_match stage_pattern s i m adv = sre_match ?tail s (Suc ?c) (m(0 \<mapsto> ?a, 1 \<mapsto> ?c)) adv"
      using pre g1 by (simp del: sre_match.simps)
    also have "\<dots> = map_option (\<lambda>(g, h, e). (e, m(0 \<mapsto> ?a, 1 \<mapsto> ?c, 2 \<mapsto> g, 3 \<mapsto> h)))
        (second_arg_at s (Suc ?c))"
      by (rule g2)
    also have "\<dots> = map_option (\<lambda>(a, c, g, h, e). (e, m(0 \<mapsto> a, 1 \<mapsto> c, 2 \<mapsto> g, 3 \<mapsto> h)))
        (stage_call_at s i)"
      using True by (cases "second_arg_at s (Suc ?c)") (auto simp: call)
    finally show ?thesis .
  next
    case False
    then have "sre_match stage_pattern s i m adv = None"
      using pre g1 by (auto simp del: sre_match.simps)
    moreover have "stage_call_at s i = None"
      using False unfolding call by (simp only: if_False)
    ultimately show ?thesis by simp
  qed
qed

text \<open>
  \<^verbatim>\<open>pattern.search\<close> with the compiled stage pattern is the scanner's
  search, from any position and with or without \<^verbatim>\<open>must_advance\<close>.
\<close>

lemma sre_search_stage_pattern_eq: "sre_search stage_pattern s i ma = stage_search s i"
proof (induction s i arbitrary: ma rule: stage_search.induct)
  case (1 s i)
  have adv: "\<forall>st. (if ma then Some i else None) = Some st \<longrightarrow> st \<le> i" by simp
  show ?case
  proof (cases "length s < i")
    case True
    then show ?thesis by (simp add: sre_search.simps [of _ s i] stage_search.simps [of s i])
  next
    case False
    then show ?thesis
      using "1.IH" [OF False] sre_match_stage_pattern [OF adv, of s Map.empty]
      by (auto simp: sre_search.simps [of _ s i] stage_search.simps [of s i]
          split: option.splits prod.splits)
  qed
qed

text \<open>The scanner's search finds the first call site at or after \<open>i\<close>, and none when there is none.\<close>

lemma stage_search_Some:
  "stage_search s i = Some (b, e, m) \<longleftrightarrow>
     i \<le> b \<and> b \<le> length s \<and>
     (\<exists>a c g h. stage_call_at s b = Some (a, c, g, h, e) \<and> m = [0 \<mapsto> a, 1 \<mapsto> c, 2 \<mapsto> g, 3 \<mapsto> h]) \<and>
     (\<forall>j. i \<le> j \<and> j < b \<longrightarrow> stage_call_at s j = None)"
proof (induction s i rule: stage_search.induct)
  case (1 s i)
  show ?case
  proof (cases "length s < i")
    case True
    then show ?thesis by (simp add: stage_search.simps [of s i])
  next
    case False
    show ?thesis
    proof (cases "stage_call_at s i")
      case None
      have "i \<le> b \<and> (\<forall>j. i \<le> j \<and> j < b \<longrightarrow> stage_call_at s j = None) \<and> stage_call_at s b \<noteq> None
          \<longleftrightarrow> Suc i \<le> b \<and> (\<forall>j. Suc i \<le> j \<and> j < b \<longrightarrow> stage_call_at s j = None) \<and> stage_call_at s b \<noteq> None"
        using None by (metis Suc_leD Suc_leI le_eq_less_or_eq)
      then show ?thesis
        using "1.IH" [OF False None] None False by (auto simp: stage_search.simps [of s i])
    next
      case (Some r)
      then show ?thesis
      proof (cases r)
        case (fields a c g h e')
        have "i \<le> b \<and> (\<forall>j. i \<le> j \<and> j < b \<longrightarrow> stage_call_at s j = None) \<longleftrightarrow> b = i"
        proof
          assume "i \<le> b \<and> (\<forall>j. i \<le> j \<and> j < b \<longrightarrow> stage_call_at s j = None)"
          with Some show "b = i" by (metis le_neq_implies_less option.distinct(1) order_refl)
        qed auto
        with Some fields False show ?thesis by (auto simp: stage_search.simps [of s i] simp del: fun_upd_apply)
      qed
    qed
  qed
qed

lemma stage_search_None:
  "stage_search s i = None \<longleftrightarrow> (\<forall>j. i \<le> j \<and> j \<le> length s \<longrightarrow> stage_call_at s j = None)"
proof (induction s i rule: stage_search.induct)
  case (1 s i)
  show ?case
  proof (cases "length s < i")
    case True
    then show ?thesis by (auto simp: stage_search.simps [of s i])
  next
    case False
    then show ?thesis using "1.IH" [OF False]
      by (auto simp: stage_search.simps [of s i] split: option.splits)
         (metis le_antisym not_less_eq_eq)+
  qed
qed

section \<open>Call sites and the literal prefix\<close>

lemma stage_call_at_prefix: "stage_call_at s i = Some r \<Longrightarrow> take 9 (drop i s) = ''addStage(''"
  by (simp add: stage_call_at_def Let_def split: if_splits)

lemma stage_search_no_prefix:
  "\<not> sublist ''addStage('' s \<Longrightarrow> stage_search s i = None"
proof (induction s i rule: stage_search.induct)
  case (1 s i)
  have "stage_call_at s i = None"
  proof (rule ccontr)
    assume "stage_call_at s i \<noteq> None"
    then obtain r where "stage_call_at s i = Some r" by blast
    then have "take 9 (drop i s) = ''addStage(''" by (rule stage_call_at_prefix)
    then have "sublist ''addStage('' s"
      by (metis append_take_drop_id sublist_append_rightI sublist_def)
    with "1.prems" show False by blast
  qed
  with 1 show ?case by (simp add: stage_search.simps [of s i])
qed

section \<open>The search\<close>

text \<open>
  C1. \<^verbatim>\<open>pattern.search\<close> with the compiled stage pattern, run by the
  backtracking engine from position \<open>i\<close> (with or without
  \<^verbatim>\<open>must_advance\<close>), returns a match from \<open>b\<close> to \<open>e\<close> with marks
  \<open>m\<close> exactly when \<open>b\<close> is the first position at or after \<open>i\<close> where the
  single-pass scanner sees a call site, the call ends at \<open>e\<close> and the marks
  are the scanner's group bounds.
\<close>

theorem sre_search_stage_pattern:
  "sre_search stage_pattern s i ma = Some (b, e, m) \<longleftrightarrow>
     i \<le> b \<and> b \<le> length s \<and>
     (\<exists>a c g h. stage_call_at s b = Some (a, c, g, h, e) \<and> m = [0 \<mapsto> a, 1 \<mapsto> c, 2 \<mapsto> g, 3 \<mapsto> h]) \<and>
     (\<forall>j. i \<le> j \<and> j < b \<longrightarrow> stage_call_at s j = None)"
  by (simp only: sre_search_stage_pattern_eq stage_search_Some)

theorem sre_search_stage_pattern_witness:
  "sre_search stage_pattern ''x = addStage(a, vertex);'' 0 False =
     Some (4, 23, [0 \<mapsto> 13, 1 \<mapsto> 14, 2 \<mapsto> 16, 3 \<mapsto> 22])"
proof -
  have "\<forall>j. 0 \<le> j \<and> j < (4::nat) \<longrightarrow> stage_call_at ''x = addStage(a, vertex);'' j = None"
    by (simp add: less_Suc_eq numeral_eq_Suc stage_call_at_def)
  moreover have "stage_call_at ''x = addStage(a, vertex);'' 4 = Some (13, 14, 16, 22, 23)"
    by (simp add: stage_call_at_def second_arg_at_def sre_count_def is_uni_space_def)
  ultimately show ?thesis
    using sre_search_stage_pattern [where s = "''x = addStage(a, vertex);''" and i = 0
        and ma = False and b = 4 and e = 23
        and m = "[0 \<mapsto> 13, 1 \<mapsto> 14, 2 \<mapsto> 16, 3 \<mapsto> 22]"]
    by simp
qed

section \<open>The groups of a match\<close>

lemma slice_sre_count:
  "slice s j (j + sre_count it s j) = takeWhile (sre_item_ok it) (drop j s)"
  by (simp add: slice_def sre_count_def takeWhile_eq_take [symmetric])

lemma set_slice_sre_count:
  "x \<in> set (slice s j k) \<Longrightarrow> k \<le> j + sre_count it s j \<Longrightarrow> sre_item_ok it x"
proof -
  assume x: "x \<in> set (slice s j k)" and k: "k \<le> j + sre_count it s j"
  have "set (slice s j k) \<subseteq> set (slice s j (j + sre_count it s j))"
    using k by (simp add: slice_def set_take_subset_set_take)
  with x have "x \<in> set (takeWhile (sre_item_ok it) (drop j s))"
    by (auto simp: slice_sre_count)
  then show ?thesis by (rule set_takeWhileD [THEN conjunct2])
qed

lemma slice_single: "j < length s \<Longrightarrow> slice s j (Suc j) = [s ! j]"
  by (simp add: slice_def take_Suc_conv_app_nth)

lemma second_arg_at_shape:
  assumes "second_arg_at s j = Some (g, h, e)"
  shows "j \<le> g \<and> g < h \<and> e = Suc h \<and> h < length s \<and> s ! h = CHR '')'' \<and>
    (\<forall>x \<in> set (slice s j g). is_uni_space x) \<and> CHR '')'' \<notin> set (slice s g h)"
proof -
  let ?st = "j + sre_count IN_CATEGORY_UNI_SPACE s j"
  let ?n = "sre_count (NOT_LITERAL CHR '')'') s ?st"
  show ?thesis
  proof (cases "0 < ?n \<and> ?st + ?n < length s")
    case True
    then have "second_arg_at s j = Some (?st, ?st + ?n, Suc (?st + ?n))"
      by (simp add: second_arg_at_def Let_def)
    with assms have "Some (g, h, e) = Some (?st, ?st + ?n, Suc (?st + ?n))" by metis
    then have g: "g = ?st" and h: "h = ?st + ?n" and e: "e = Suc (?st + ?n)"
      by (simp_all only: option.inject prod.inject)
    have "s ! h = CHR '')''"
      using sre_count_stop [of ?st "NOT_LITERAL CHR '')''" s] True unfolding h by simp
    moreover have "\<forall>x \<in> set (slice s j g). is_uni_space x"
      using set_slice_sre_count [of _ s j g IN_CATEGORY_UNI_SPACE] unfolding g by auto
    moreover have "CHR '')'' \<notin> set (slice s g h)"
      using set_slice_sre_count [of "CHR '')''" s g h "NOT_LITERAL CHR '')''"] unfolding g h by auto
    ultimately show ?thesis using True unfolding g h e by simp
  next
    case False
    then have c: "j < ?st \<and> ?n = 0 \<and> ?st < length s"
      using assms by (auto simp: second_arg_at_def Let_def split: if_splits)
    then have "second_arg_at s j = Some (?st - 1, ?st, Suc ?st)"
      using False by (simp add: second_arg_at_def Let_def)
    with assms have "Some (g, h, e) = Some (?st - 1, ?st, Suc ?st)" by metis
    then have g: "g = ?st - 1" and h: "h = ?st" and e: "e = Suc ?st"
      by (simp_all only: option.inject prod.inject)
    have "s ! h = CHR '')''"
      using sre_count_stop [of ?st "NOT_LITERAL CHR '')''" s] c unfolding h by simp
    have sp: "\<forall>x \<in> set (slice s j ?st). is_uni_space x"
      using set_slice_sre_count [of _ s j ?st IN_CATEGORY_UNI_SPACE] by auto
    have jg: "j \<le> g" and gl: "g < length s" and sg: "Suc g = ?st"
      using c unfolding g by auto
    have app: "slice s j g @ [s ! g] = slice s j ?st"
      using slice_append_adjacent [OF jg, of ?st s] slice_single [OF gl] sg by simp
    have "is_uni_space (s ! g)"
      using sp app by (metis Un_iff list.set_intros(1) set_append)
    then have "s ! g \<noteq> CHR '')''" by (metis is_uni_space_not_paren)
    then have "CHR '')'' \<notin> set (slice s g h)"
      using slice_single [OF gl] sg unfolding h by simp
    moreover have "\<forall>x \<in> set (slice s j g). is_uni_space x"
      using sp app by (metis Un_iff set_append)
    ultimately show ?thesis using c \<open>s ! h = CHR '')''\<close> unfolding g h e by auto
  qed
qed

lemma stage_call_at_shape:
  assumes "stage_call_at s i = Some (a, c, g, h, e)"
  shows "a = i + 9 \<and> take 9 (drop i s) = ''addStage('' \<and> a < c \<and> c < length s \<and>
    s ! c = CHR '','' \<and> CHR '','' \<notin> set (slice s a c) \<and> second_arg_at s (Suc c) = Some (g, h, e)"
proof -
  let ?a = "i + 9"
  let ?c = "?a + sre_count (NOT_LITERAL CHR '','') s ?a"
  have pre: "take 9 (drop i s) = ''addStage('' \<and> ?a < ?c \<and> ?c < length s"
    and arg: "second_arg_at s (Suc ?c) \<noteq> None"
    using assms by (auto simp: stage_call_at_def Let_def split: if_splits)
  then obtain r where r: "second_arg_at s (Suc ?c) = Some r" by blast
  have "stage_call_at s i = Some (?a, ?c, r)"
    using pre r by (cases r) (simp add: stage_call_at_def Let_def)
  with assms have "Some (a, c, g, h, e) = Some (?a, ?c, r)" by metis
  then have ac: "a = ?a" "c = ?c" and "r = (g, h, e)" by simp_all
  with r have "second_arg_at s (Suc c) = Some (g, h, e)" by simp
  moreover have "s ! c = CHR '',''"
    using sre_count_stop [of ?a "NOT_LITERAL CHR '',''" s] pre unfolding ac by simp
  moreover have "CHR '','' \<notin> set (slice s a c)"
    using set_slice_sre_count [of "CHR '',''" s ?a ?c "NOT_LITERAL CHR '',''"] unfolding ac by auto
  ultimately show ?thesis using pre unfolding ac by simp
qed

lemma stage_call_at_comma:
  "stage_call_at s i = Some (a, c, g, h, e) \<Longrightarrow> c = a + sre_count (NOT_LITERAL CHR '','') s a"
  by (auto simp: stage_call_at_def Let_def split: if_splits)

text \<open>
  C10. Every match of the search has the shape the regular expression
  describes: the whole match is \<^verbatim>\<open>addStage(\<close>, group 1, a comma, a run
  of whitespace, group 2 and a closing parenthesis; group 1 is non-empty and
  has no comma; group 2 is non-empty and has no closing parenthesis.
\<close>

theorem stage_match_groups:
  assumes "sre_search stage_pattern s i ma = Some (b, e, m)"
  shows "\<exists>g1 ws g2.
    match_group \<lparr>mo_string = s, mo_start = b, mo_end = e, mo_marks = m\<rparr> 0
      = Some (''addStage('' @ g1 @ '','' @ ws @ g2 @ '')'') \<and>
    match_group \<lparr>mo_string = s, mo_start = b, mo_end = e, mo_marks = m\<rparr> 1 = Some g1 \<and>
    match_group \<lparr>mo_string = s, mo_start = b, mo_end = e, mo_marks = m\<rparr> 2 = Some g2 \<and>
    g1 \<noteq> [] \<and> CHR '','' \<notin> set g1 \<and> (\<forall>x \<in> set ws. is_uni_space x) \<and>
    g2 \<noteq> [] \<and> CHR '')'' \<notin> set g2"
proof -
  obtain a c g h where call: "stage_call_at s b = Some (a, c, g, h, e)"
    and m: "m = [0 \<mapsto> a, 1 \<mapsto> c, 2 \<mapsto> g, 3 \<mapsto> h]"
    using assms by (auto simp: sre_search_stage_pattern_eq stage_search_Some)
  note sh = stage_call_at_shape [OF call]
  note arg = second_arg_at_shape [of s "Suc c" g h e]
  have ord: "b \<le> a" "a \<le> c" "c \<le> Suc c" "Suc c \<le> g" "g \<le> h" "h \<le> e"
    and len: "c < length s" "h < length s" and e: "e = Suc h"
    using sh arg by auto
  have whole: "slice s b e = slice s b a @ slice s a c @ slice s c (Suc c) @ slice s (Suc c) g
      @ slice s g h @ slice s h e"
    using ord by (simp add: slice_append_adjacent)
  have "slice s b a = ''addStage(''" using sh by (simp add: slice_def)
  moreover have "slice s c (Suc c) = '',''" using sh slice_single [OF len(1)] by simp
  moreover have "slice s h e = '')''" using arg sh slice_single [OF len(2)] e by simp
  ultimately have "slice s b e = ''addStage('' @ slice s a c @ '','' @ slice s (Suc c) g
      @ slice s g h @ '')''"
    using whole by simp
  moreover have "slice s a c \<noteq> []" and "slice s g h \<noteq> []"
    using ord len sh arg by (auto simp: slice_def)
  ultimately show ?thesis
    using sh arg by (auto simp: match_group_def m)
qed

theorem stage_match_groups_witness:
  "the (match_group \<lparr>mo_string = ''x = addStage(a, vertex);'', mo_start = 4, mo_end = 23,
      mo_marks = [0 \<mapsto> 13, 1 \<mapsto> 14, 2 \<mapsto> 16, 3 \<mapsto> 22]\<rparr> 2) \<noteq> [] \<and>
   CHR '')'' \<notin> set (the (match_group \<lparr>mo_string = ''x = addStage(a, vertex);'', mo_start = 4,
      mo_end = 23, mo_marks = [0 \<mapsto> 13, 1 \<mapsto> 14, 2 \<mapsto> 16, 3 \<mapsto> 22]\<rparr> 2))"
proof -
  have "sre_search stage_pattern ''x = addStage(a, vertex);'' 0 False =
      Some (4, 23, [0 \<mapsto> 13, 1 \<mapsto> 14, 2 \<mapsto> 16, 3 \<mapsto> 22])"
    by (simp add: sre_search_stage_pattern_eq stage_search.simps stage_call_at_def
        second_arg_at_def sre_count_def is_uni_space_def)
  from stage_match_groups [OF this] show ?thesis by auto
qed

section \<open>How many call sites a text has\<close>

text \<open>A match of the stage pattern is at least 13 characters long (\<^verbatim>\<open>addStage(a,b)\<close>).\<close>

lemma stage_match_span:
  assumes "sre_search stage_pattern s i ma = Some (b, e, m)"
  shows "i \<le> b \<and> b + 13 \<le> e \<and> e \<le> length s"
proof -
  obtain a c g h where call: "stage_call_at s b = Some (a, c, g, h, e)" and ib: "i \<le> b"
    using assms by (auto simp: sre_search_stage_pattern_eq stage_search_Some)
  note sh = stage_call_at_shape [OF call]
  note arg = second_arg_at_shape [of s "Suc c" g h e]
  show ?thesis using ib sh arg by auto
qed

text \<open>
  C25. The matches of the stage pattern do not overlap and each has at least
  13 characters, so a text of length \<open>n\<close> has at most \<open>n / 13\<close> call sites,
  and the callback, with its binary read, runs at most that often.
\<close>

theorem stage_finditer_bound:
  "13 * length (sre_finditer stage_pattern s i ma) \<le> length s - i"
proof -
  have "p = stage_pattern \<Longrightarrow> 13 * length (sre_finditer p s i ma) \<le> length s - i" for p
  proof (induction p s i ma rule: sre_finditer.induct)
    case (1 p s i ma)
    show ?case
    proof (cases "sre_search p s i ma")
      case None
      then show ?thesis by (simp add: sre_finditer.simps [of p s i ma])
    next
      case (Some r)
      obtain b e m where r: "r = (b, e, m)" by (cases r) auto
      have "i \<le> b \<and> b + 13 \<le> e \<and> e \<le> length s"
        using stage_match_span Some r "1.prems" by blast
      with "1.IH" [OF Some r [symmetric] refl "1.prems"] Some r show ?thesis
        by (simp add: sre_finditer.simps [of p s i ma]) arith
    qed
  qed
  then show ?thesis by simp
qed

end
