(* ===== verification/Stage_Locality.thy ===== *)
theory Stage_Locality
  imports Stage_Pattern
begin

text \<open>
  Locality of the call-site scanner of \<open>Stage_Pattern\<close>: where a call site
  is found and what it spans depends only on the text from its start to its
  closing parenthesis. A call site keeps its bounds when text is dropped in
  front of it (shifted), when text is appended after it, and when the text
  after its end is cut off; and text in front of a call site cannot begin a
  call site whose outcome depends on which call follows (the gap lemma).
  These are the facts the rewrite of \<open>Stage_Rewrite\<close> needs to show that
  replacing one call site leaves the others where they were.
\<close>

section \<open>Dropping a prefix\<close>

lemma sre_count_drop: "i \<le> k \<Longrightarrow> sre_count it s k = sre_count it (drop i s) (k - i)"
  by (simp add: sre_count_def)

lemma second_arg_at_drop:
  assumes ij: "i \<le> j"
  shows "second_arg_at s j =
     map_option (\<lambda>(g, h, e). (i + g, i + h, i + e)) (second_arg_at (drop i s) (j - i))"
proof -
  let ?t = "drop i s"
  define A where "A = (j - i) + sre_count IN_CATEGORY_UNI_SPACE ?t (j - i)"
  define N where "N = sre_count (NOT_LITERAL CHR '')'') ?t A"
  have st: "j + sre_count IN_CATEGORY_UNI_SPACE s j = i + A"
    using ij by (simp add: A_def sre_count_drop [OF ij])
  have n: "sre_count (NOT_LITERAL CHR '')'') s (i + A) = N"
    by (simp add: N_def sre_count_drop [of i "i + A"])
  have len: "length ?t = length s - i" by simp
  have "second_arg_at s j =
      (if 0 < N \<and> i + A + N < length s then Some (i + A, i + A + N, Suc (i + A + N))
       else if j < i + A \<and> N = 0 \<and> i + A < length s then Some (i + A - 1, i + A, Suc (i + A))
       else None)"
    unfolding second_arg_at_def Let_def unfolding st unfolding n ..
  moreover have "second_arg_at ?t (j - i) =
      (if 0 < N \<and> A + N < length ?t then Some (A, A + N, Suc (A + N))
       else if j - i < A \<and> N = 0 \<and> A < length ?t then Some (A - 1, A, Suc A)
       else None)"
    unfolding second_arg_at_def Let_def A_def N_def ..
  ultimately show ?thesis using ij len by auto
qed

lemma stage_call_at_drop:
  assumes ij: "i \<le> j"
  shows "stage_call_at s j =
     map_option (\<lambda>(a, c, g, h, e). (i + a, i + c, i + g, i + h, i + e)) (stage_call_at (drop i s) (j - i))"
proof -
  let ?t = "drop i s"
  define C where "C = (j - i + 9) + sre_count (NOT_LITERAL CHR '','') ?t (j - i + 9)"
  have c: "j + 9 + sre_count (NOT_LITERAL CHR '','') s (j + 9) = i + C"
    using ij by (simp add: C_def sre_count_drop [of i "j + 9"])
  have pre: "take 9 (drop j s) = take 9 (drop (j - i) ?t)"
    using ij by simp
  have arg: "second_arg_at s (Suc (i + C)) =
      map_option (\<lambda>(g, h, e). (i + g, i + h, i + e)) (second_arg_at ?t (Suc C))"
    using second_arg_at_drop [of i "Suc (i + C)" s] by simp
  have "stage_call_at s j =
      (if take 9 (drop (j - i) ?t) = ''addStage('' \<and> j + 9 < i + C \<and> i + C < length s
       then map_option (\<lambda>(g, h, e). (j + 9, i + C, g, h, e))
              (map_option (\<lambda>(g, h, e). (i + g, i + h, i + e)) (second_arg_at ?t (Suc C)))
       else None)"
    unfolding stage_call_at_def Let_def unfolding c unfolding pre arg ..
  moreover have "stage_call_at ?t (j - i) =
      (if take 9 (drop (j - i) ?t) = ''addStage('' \<and> j - i + 9 < C \<and> C < length ?t
       then map_option (\<lambda>(g, h, e). (j - i + 9, C, g, h, e)) (second_arg_at ?t (Suc C))
       else None)"
    unfolding stage_call_at_def Let_def C_def ..
  ultimately show ?thesis
    using ij by (auto simp: option.map_comp comp_def split: prod.splits intro!: option.map_cong)
qed

section \<open>Appending and cutting off text\<close>

lemma sre_count_append:
  "k + sre_count it x k < length x \<Longrightarrow> sre_count it (x @ v) k = sre_count it x k"
proof -
  assume lt: "k + sre_count it x k < length x"
  then have "\<not> sre_item_ok it (x ! (k + sre_count it x k))" by (rule sre_count_stop)
  moreover have "x ! (k + sre_count it x k) \<in> set (drop k x)"
    using lt by (auto simp: in_set_conv_nth intro!: exI [of _ "sre_count it x k"])
  ultimately have tw: "takeWhile (sre_item_ok it) (drop k x @ v) = takeWhile (sre_item_ok it) (drop k x)"
    by (intro takeWhile_append1)
  have "drop k (x @ v) = drop k x @ v" using lt by simp
  with tw show ?thesis by (simp add: sre_count_def)
qed

lemma second_arg_at_append:
  "second_arg_at x j = Some r \<Longrightarrow> second_arg_at (x @ v) j = Some r"
proof -
  assume arg: "second_arg_at x j = Some r"
  let ?st = "j + sre_count IN_CATEGORY_UNI_SPACE x j"
  let ?n = "sre_count (NOT_LITERAL CHR '')'') x ?st"
  have st_lt: "?st < length x" and n_lt: "?st + ?n < length x"
    using arg by (auto simp: second_arg_at_def Let_def split: if_splits)
  have ws: "sre_count IN_CATEGORY_UNI_SPACE (x @ v) j = sre_count IN_CATEGORY_UNI_SPACE x j"
    using st_lt by (rule sre_count_append)
  have np: "sre_count (NOT_LITERAL CHR '')'') (x @ v) ?st = ?n"
    using n_lt by (rule sre_count_append)
  show ?thesis
    using arg unfolding second_arg_at_def Let_def ws np by (auto split: if_splits)
qed

lemma stage_call_at_append:
  "stage_call_at x j = Some r \<Longrightarrow> stage_call_at (x @ v) j = Some r"
proof -
  assume call: "stage_call_at x j = Some r"
  let ?c = "j + 9 + sre_count (NOT_LITERAL CHR '','') x (j + 9)"
  have pre: "take 9 (drop j x) = ''addStage(''" and ac: "j + 9 < ?c" and c_lt: "?c < length x"
    and arg: "second_arg_at x (Suc ?c) \<noteq> None"
    using call by (auto simp: stage_call_at_def Let_def split: if_splits)
  have cm: "sre_count (NOT_LITERAL CHR '','') (x @ v) (j + 9) = sre_count (NOT_LITERAL CHR '','') x (j + 9)"
    using c_lt by (intro sre_count_append) simp
  have pre': "take 9 (drop j (x @ v)) = take 9 (drop j x)"
    using ac c_lt by simp
  from arg obtain q where q: "second_arg_at x (Suc ?c) = Some q" by blast
  have "second_arg_at (x @ v) (Suc ?c) = Some q" using q by (rule second_arg_at_append)
  with call q show ?thesis
    unfolding stage_call_at_def Let_def cm pre' by (auto split: if_splits)
qed

lemma sre_count_lt:
  "k \<le> p \<Longrightarrow> p < length s \<Longrightarrow> \<not> sre_item_ok it (s ! p) \<Longrightarrow> k + sre_count it s k \<le> p"
proof (rule ccontr)
  assume kp: "k \<le> p" and pl: "p < length s" and no: "\<not> sre_item_ok it (s ! p)"
    and "\<not> k + sre_count it s k \<le> p"
  then have "p - k < sre_count it s k" by simp
  then have "sre_item_ok it (s ! (k + (p - k)))" by (rule sre_count_nth)
  with kp no show False by simp
qed

lemma sre_count_append_gen:
  assumes "k \<le> length x"
  shows "sre_count it (x @ y) k =
    sre_count it x k + (if k + sre_count it x k = length x then sre_count it y 0 else 0)"
proof (cases "k + sre_count it x k < length x")
  case True
  then show ?thesis by (simp add: sre_count_append)
next
  case False
  have "k + sre_count it x k \<le> length x" using sre_count_le [of it x k] assms by simp
  with False have eq: "k + sre_count it x k = length x" by simp
  have "takeWhile (sre_item_ok it) (drop k x) = take (length (drop k x)) (drop k x)"
    using eq takeWhile_eq_take [of "sre_item_ok it" "drop k x"] by (simp add: sre_count_def)
  then have all: "\<forall>z \<in> set (drop k x). sre_item_ok it z"
    by (simp add: takeWhile_eq_all_conv)
  have "drop k (x @ y) = drop k x @ y" using assms by simp
  with all have "takeWhile (sre_item_ok it) (drop k (x @ y)) = drop k x @ takeWhile (sre_item_ok it) y"
    by (simp add: takeWhile_append2)
  then show ?thesis using eq assms by (simp add: sre_count_def)
qed

lemma sre_count_ge:
  "(\<And>k. k < d \<Longrightarrow> i + k < length s \<and> sre_item_ok it (s ! (i + k))) \<Longrightarrow> d \<le> sre_count it s i"
  using sre_count_skip [of d i s it] by simp

section \<open>Text in front of a call site\<close>

lemma take_lit:
  assumes "take 9 y = ''addStage(''"
  shows "9 \<le> length y \<and> y ! 0 = CHR ''a'' \<and> (\<forall>k < 9. y ! k \<noteq> CHR '','')"
proof -
  have "length (take 9 y) = 9" using assms by simp
  then have len: "9 \<le> length y" by simp
  have "\<forall>k < 9. y ! k = ''addStage('' ! k"
    using assms by (metis nth_take)
  then have "y ! 0 = CHR ''a''" and "\<forall>k < 9. y ! k \<noteq> CHR '',''"
    by (auto simp: less_Suc_eq numeral_eq_Suc)
  with len show ?thesis by simp
qed

lemma call_at_0:
  assumes "stage_call_at y 0 = Some (a, c, g, h, e)"
  shows "take 9 y = ''addStage('' \<and> y ! 0 = CHR ''a'' \<and> c < length y \<and>
    sre_count (NOT_LITERAL CHR '','') y 0 = c \<and> h < length y \<and> y ! h = CHR '')'' \<and>
    sre_count IN_CATEGORY_UNI_SPACE y 0 = 0"
proof -
  note sh = stage_call_at_shape [OF assms]
  note arg = second_arg_at_shape [of y "Suc c" g h e]
  have pre: "take 9 y = ''addStage(''" using sh by simp
  note lit = take_lit [OF pre]
  have c_le: "sre_count (NOT_LITERAL CHR '','') y 0 \<le> c"
    using sre_count_lt [of 0 c y "NOT_LITERAL CHR '',''"] sh by simp
  have "c \<le> sre_count (NOT_LITERAL CHR '','') y 0"
  proof (rule sre_count_ge)
    fix k assume k: "k < c"
    show "0 + k < length y \<and> sre_item_ok (NOT_LITERAL CHR '','') (y ! (0 + k))"
    proof (cases "k < 9")
      case True
      with lit k sh show ?thesis by auto
    next
      case False
      then have "y ! k \<in> set (slice y 9 c)"
        using k sh by (auto simp: in_set_conv_nth slice_nth intro!: exI [of _ "k - 9"])
      with sh k show ?thesis by auto
    qed
  qed
  with c_le have "sre_count (NOT_LITERAL CHR '','') y 0 = c" by simp
  moreover have "sre_count IN_CATEGORY_UNI_SPACE y 0 = 0"
    using sre_count_lt [of 0 0 y IN_CATEGORY_UNI_SPACE] lit by (cases y) (auto simp: is_uni_space_def)
  ultimately show ?thesis using sh arg lit by auto
qed

lemma lit_no_border: "0 < d \<Longrightarrow> d < 9 \<Longrightarrow> drop d ''addStage('' \<noteq> take (9 - d) ''addStage(''"
  by (auto simp: less_Suc_eq numeral_eq_Suc)

lemma take9_append:
  assumes "take 9 y = ''addStage(''" and "j \<le> length x"
  shows "take 9 (drop j (x @ y)) = take 9 (drop j x) @ take (9 - (length x - j)) ''addStage(''"
proof -
  have "take 9 (drop j (x @ y)) = take 9 (drop j x) @ take (9 - (length x - j)) y"
    using assms(2) by simp
  also have "take (9 - (length x - j)) y = take (9 - (length x - j)) (take 9 y)" by simp
  finally show ?thesis using assms(1) by simp
qed

lemma lit_no_overlap:
  assumes y: "take 9 y = ''addStage(''" and j: "j < length x" and jx: "length x < j + 9"
  shows "take 9 (drop j (x @ y)) \<noteq> ''addStage(''"
proof
  let ?d = "length x - j"
  assume eq: "take 9 (drop j (x @ y)) = ''addStage(''"
  have d: "0 < ?d" "?d < 9" using j jx by simp_all
  have u: "take 9 (drop j x) = drop j x" using jx by simp
  from eq have "drop j x @ take (9 - ?d) ''addStage('' = ''addStage(''"
    using take9_append [OF y, of j x] j u by simp
  then have "take (9 - ?d) ''addStage('' = drop ?d ''addStage(''"
    by (metis append_eq_conv_conj length_drop)
  with lit_no_border [OF d] show False by simp
qed

lemma second_arg_at_gap:
  assumes CL: "C < length x"
    and y: "stage_call_at y 0 = Some (a, c, g, h, e)"
    and y': "stage_call_at y' 0 = Some (a', c', g', h', e')"
    and none: "second_arg_at (x @ y) (Suc C) = None"
  shows "second_arg_at (x @ y') (Suc C) = None"
proof -
  let ?L = "length x" and ?t = "x @ y" and ?t' = "x @ y'"
  let ?ws = IN_CATEGORY_UNI_SPACE and ?np = "NOT_LITERAL CHR '')''"
  note fy = call_at_0 [OF y] and fy' = call_at_0 [OF y']
  define st where "st = Suc C + sre_count ?ws x (Suc C)"
  have stL: "st \<le> ?L" using sre_count_le [of ?ws x "Suc C"] CL by (simp add: st_def)
  have st_t: "Suc C + sre_count ?ws ?t (Suc C) = st" and st_t': "Suc C + sre_count ?ws ?t' (Suc C) = st"
    using sre_count_append_gen [of "Suc C" x ?ws y] sre_count_append_gen [of "Suc C" x ?ws y'] CL fy fy'
    by (simp_all add: st_def)
  show ?thesis
  proof (cases "st < ?L")
    case False
    with stL have stEq: "st = ?L" by simp
    have "sre_count ?np ?t st = sre_count ?np y 0"
      using sre_count_append_gen [of ?L x ?np y] stEq by (simp add: sre_count_def)
    moreover have "0 < sre_count ?np y 0"
      using sre_count_ge [of 1 0 y ?np] fy by (cases y) auto
    moreover have "sre_count ?np y 0 \<le> h"
      using sre_count_lt [of 0 h y ?np] fy by simp
    ultimately have "second_arg_at ?t (Suc C) \<noteq> None"
      using st_t stEq fy by (simp add: second_arg_at_def Let_def)
    with none show ?thesis by blast
  next
    case stx: True
    show ?thesis
    proof (cases "x ! st = CHR '')''")
      case paren: True
      have n0: "sre_count ?np ?t st = 0" "sre_count ?np ?t' st = 0"
        using sre_count_lt [of st st ?t ?np] sre_count_lt [of st st ?t' ?np] stx paren
        by (simp_all add: nth_append)
      have "second_arg_at ?t' (Suc C) = second_arg_at ?t (Suc C)"
        using st_t st_t' n0 stx by (simp add: second_arg_at_def Let_def)
      with none show ?thesis by simp
    next
      case noparen: False
      have "0 < sre_count ?np ?t st"
        using sre_count_ge [of 1 st ?t ?np] stx noparen by (simp add: nth_append)
      moreover have "st + sre_count ?np ?t st \<le> ?L + h"
        using sre_count_lt [of st "?L + h" ?t ?np] stx fy by (simp add: nth_append)
      ultimately have "second_arg_at ?t (Suc C) \<noteq> None"
        using st_t fy by (simp add: second_arg_at_def Let_def)
      with none show ?thesis by blast
    qed
  qed
qed

lemma stage_call_at_gap:
  assumes j: "j < length x"
    and y: "stage_call_at y 0 = Some (a, c, g, h, e)"
    and y': "stage_call_at y' 0 = Some (a', c', g', h', e')"
    and none: "stage_call_at (x @ y) j = None"
  shows "stage_call_at (x @ y') j = None"
proof -
  let ?L = "length x"
  let ?t = "x @ y" and ?t' = "x @ y'"
  let ?lit = "''addStage(''"
  note fy = call_at_0 [OF y] and fy' = call_at_0 [OF y']
  have pre_eq: "take 9 (drop j ?t) = take 9 (drop j ?t')"
    using take9_append [of y j x] take9_append [of y' j x] fy fy' j by simp
  show ?thesis
  proof (cases "take 9 (drop j ?t) = ?lit")
    case False
    with pre_eq show ?thesis by (simp add: stage_call_at_def Let_def)
  next
    case True
    have j9: "j + 9 \<le> ?L"
      using lit_no_overlap [of y j x] fy j True by (meson not_le)
    let ?A = "j + 9"
    let ?nc = "NOT_LITERAL CHR '',''"
    have cnt_le: "?A + sre_count ?nc x ?A \<le> ?L" using sre_count_le [of ?nc x ?A] j9 by simp
    show ?thesis
    proof (cases "?A + sre_count ?nc x ?A = ?L")
      case reach: True
      have "sre_count ?nc ?t ?A = sre_count ?nc x ?A + c"
        using sre_count_append_gen [of ?A x ?nc y] j9 reach fy by simp
      then have C: "?A + sre_count ?nc ?t ?A = ?L + c" using reach by simp
      obtain q where q: "second_arg_at y (Suc c) = Some q"
        using y by (auto simp: stage_call_at_def Let_def split: if_splits)
      have "second_arg_at ?t (Suc (?L + c)) \<noteq> None"
        using second_arg_at_drop [of ?L "Suc (?L + c)" ?t] q by simp
      moreover have "?A < ?L + c" "?L + c < length ?t"
        using j9 fy y by (auto dest: stage_call_at_shape)
      ultimately have "stage_call_at ?t j \<noteq> None"
        using True C by (simp add: stage_call_at_def Let_def)
      with none show ?thesis by simp
    next
      case inx: False
      define C where "C = ?A + sre_count ?nc x ?A"
      have CL: "C < ?L" using inx cnt_le by (simp add: C_def)
      have Ct: "?A + sre_count ?nc ?t ?A = C" and Ct': "?A + sre_count ?nc ?t' ?A = C"
        using CL sre_count_append [of ?A ?nc x] by (simp_all add: C_def)
      show ?thesis
      proof (cases "?A < C")
        case False
        then show ?thesis using Ct' by (simp add: stage_call_at_def Let_def)
      next
        case AC: True
        have "second_arg_at ?t (Suc C) = None"
          using none True AC Ct CL by (auto simp: stage_call_at_def Let_def split: if_splits)
        then have "second_arg_at ?t' (Suc C) = None" by (rule second_arg_at_gap [OF CL y y'])
        then show ?thesis using Ct' by (simp add: stage_call_at_def Let_def)
      qed
    qed
  qed
qed

section \<open>Cutting off the text after a call site\<close>

lemma sre_count_restrict:
  assumes "k + sre_count it (x @ v) k < length x"
  shows "sre_count it x k = sre_count it (x @ v) k"
proof -
  have k: "k \<le> length x" using assms by simp
  have "k + sre_count it x k \<noteq> length x"
  proof
    assume "k + sre_count it x k = length x"
    then have "sre_count it (x @ v) k \<ge> length x - k"
      using sre_count_append_gen [OF k, of it v] by simp
    with assms show False by simp
  qed
  then show ?thesis using sre_count_append_gen [OF k, of it v] by simp
qed

lemma second_arg_at_restrict:
  assumes arg: "second_arg_at (x @ v) j = Some (g, h, e)" and e: "e \<le> length x"
  shows "second_arg_at x j = Some (g, h, e)"
proof -
  let ?ws = IN_CATEGORY_UNI_SPACE and ?np = "NOT_LITERAL CHR '')''"
  let ?st = "j + sre_count ?ws (x @ v) j"
  let ?n = "sre_count ?np (x @ v) ?st"
  have sh: "?st \<le> h" "?st + ?n = h" "h < e"
    using arg by (auto simp: second_arg_at_def Let_def split: if_splits)
  have ws: "sre_count ?ws x j = sre_count ?ws (x @ v) j"
    using sh e by (intro sre_count_restrict) simp
  have np: "sre_count ?np x ?st = ?n"
    using sh e by (intro sre_count_restrict) simp
  have lt: "?st + ?n < length x" "?st + ?n < length (x @ v)" "?st < length x" "?st < length (x @ v)"
    using sh e by simp_all
  have "second_arg_at x j = second_arg_at (x @ v) j"
    unfolding second_arg_at_def Let_def ws np using lt by simp
  with arg show ?thesis by simp
qed

lemma stage_call_at_restrict:
  assumes call: "stage_call_at (x @ v) j = Some (a, c, g, h, e)" and e: "e \<le> length x"
  shows "stage_call_at x j = Some (a, c, g, h, e)"
proof -
  note sh = stage_call_at_shape [OF call]
  note arg = second_arg_at_shape [of "x @ v" "Suc c" g h e]
  have cx: "c < length x" using sh arg e by auto
  have ac: "j + 9 + sre_count (NOT_LITERAL CHR '','') (x @ v) (j + 9) = c"
    using stage_call_at_comma [OF call] sh by simp
  have cnt: "sre_count (NOT_LITERAL CHR '','') x (j + 9) = sre_count (NOT_LITERAL CHR '','') (x @ v) (j + 9)"
    using ac cx by (intro sre_count_restrict) simp
  have j9: "j + 9 \<le> length x" using sh cx by linarith
  then have pre: "take 9 (drop j x) = take 9 (drop j (x @ v))" by simp
  have argv: "second_arg_at (x @ v) (Suc c) = Some (g, h, e)" using sh by blast
  have "second_arg_at x (Suc c) = Some (g, h, e)"
    using argv e by (rule second_arg_at_restrict)
  with argv have arg_eq: "second_arg_at x (Suc c) = second_arg_at (x @ v) (Suc c)" by simp
  have lt: "c < length x" "c < length (x @ v)" using cx by simp_all
  have "stage_call_at x j = stage_call_at (x @ v) j"
    unfolding stage_call_at_def Let_def cnt pre ac arg_eq using lt by simp
  with call show ?thesis by simp
qed

end
