(* ===== verification/Stage_Rewrite.thy ===== *)
theory Stage_Rewrite
  imports Stage_Locality
begin

text \<open>
  The abstract rewrite that \<^verbatim>\<open>stage_pattern.sub(replacer, content)\<close>
  performs (line 63), stated on call sites: \<open>stage_sub f t\<close> finds the first
  call site of \<open>t\<close>, replaces it by what the callback returns, and goes on
  with the text after it. The engine's substitution loop refines it for every
  callback that reads only the groups of its match
  (\<open>sre_sub_loop_stage_sub\<close>). A callback that maps a call site to a call
  site it maps to itself makes the rewrite idempotent
  (\<open>stage_sub_idem_gen\<close>), and one that never introduces a character keeps
  it out of the result (\<open>stage_sub_char\<close>).
\<close>

section \<open>The rewrite on call sites\<close>

text \<open>The three groups a callback can ask the match object for.\<close>

definition groups_of :: "sre_match_obj \<Rightarrow> string option list" where
  "groups_of mo = [match_group mo 0, match_group mo 1, match_group mo 2]"

lemma stage_search_span:
  "stage_search t i = Some (b, e, m) \<Longrightarrow> i \<le> b \<and> b + 13 \<le> e \<and> e \<le> length t"
  using stage_match_span [of t i False b e m] by (simp add: sre_search_stage_pattern_eq)

function stage_sub :: "(sre_match_obj \<Rightarrow> ('e + string) \<times> 'l list) \<Rightarrow> string
    \<Rightarrow> ('e + string) \<times> 'l list" where
  "stage_sub f t =
     (case stage_search t 0 of
        None \<Rightarrow> (Inr t, [])
      | Some (b, e, m) \<Rightarrow>
          (case f (mo_of t (b, e, m)) of
             (Inl x, out) \<Rightarrow> (Inl x, out)
           | (Inr item, out) \<Rightarrow>
               (case stage_sub f (drop e t) of
                  (r, out') \<Rightarrow> (map_sum id (\<lambda>rest. take b t @ item @ rest) r, out @ out'))))"
  by pat_completeness auto
termination
proof (relation "measure (\<lambda>(f, t). length t)")
  fix f t bem b em e m
  assume "stage_search t 0 = Some bem" and "(b, em) = bem" and "(e, m) = em"
  then have "stage_search t 0 = Some (b, e, m)" by simp
  then have "b + 13 \<le> e \<and> e \<le> length t" using stage_search_span by blast
  then show "((f, drop e t), f, t) \<in> measure (\<lambda>(f, t). length t)" by auto
qed simp

declare stage_sub.simps [simp del]

text \<open>A text that is one call site, and the match object of that call site.\<close>

definition is_call :: "string \<Rightarrow> bool" where
  "is_call u \<longleftrightarrow> (case stage_call_at u 0 of Some (a, c, g, h, e) \<Rightarrow> e = length u | None \<Rightarrow> False)"

definition call_mo :: "string \<Rightarrow> sre_match_obj" where
  "call_mo u =
     (case stage_call_at u 0 of
        Some (a, c, g, h, e) \<Rightarrow> mo_of u (0, e, [0 \<mapsto> a, 1 \<mapsto> c, 2 \<mapsto> g, 3 \<mapsto> h])
      | None \<Rightarrow> mo_of u (0, 0, Map.empty))"

section \<open>Searching after a prefix\<close>

lemma shift_marks:
  "map_option ((+) i) \<circ> [0 \<mapsto> a, 1 \<mapsto> c, 2 \<mapsto> g, 3 \<mapsto> h] =
     [0 \<mapsto> i + a, 1 \<mapsto> i + c, 2 \<mapsto> i + g, 3 \<mapsto> i + h]"
  by (auto simp: fun_eq_iff)

lemma stage_search_drop:
  "stage_search t i =
     map_option (\<lambda>(b, e, m). (i + b, i + e, map_option ((+) i) \<circ> m)) (stage_search (drop i t) 0)"
proof (cases "stage_search (drop i t) 0")
  case None
  note none = this
  then have "\<forall>j. j \<le> length t - i \<longrightarrow> stage_call_at (drop i t) j = None"
    by (simp add: stage_search_None)
  then have "\<forall>j. i \<le> j \<and> j \<le> length t \<longrightarrow> stage_call_at t j = None"
  proof (intro allI impI)
    fix j assume j: "i \<le> j \<and> j \<le> length t"
    then have "stage_call_at (drop i t) (j - i) = None" using \<open>\<forall>j. _\<close> by (simp add: diff_le_mono)
    then show "stage_call_at t j = None" using stage_call_at_drop [of i j t] j by simp
  qed
  then have "stage_search t i = None" by (simp add: stage_search_None)
  with none show ?thesis by simp
next
  case (Some r)
  obtain b e m where r: "r = (b, e, m)" by (cases r) auto
  with Some obtain a c g h where
    blen: "b \<le> length t - i" and call: "stage_call_at (drop i t) b = Some (a, c, g, h, e)"
    and m: "m = [0 \<mapsto> a, 1 \<mapsto> c, 2 \<mapsto> g, 3 \<mapsto> h]"
    and before: "\<forall>j. j < b \<longrightarrow> stage_call_at (drop i t) j = None"
    by (auto simp: stage_search_Some)
  have "stage_call_at t (i + b) = Some (i + a, i + c, i + g, i + h, i + e)"
    using stage_call_at_drop [of i "i + b" t] call by simp
  moreover have "\<forall>j. i \<le> j \<and> j < i + b \<longrightarrow> stage_call_at t j = None"
  proof (intro allI impI)
    fix j assume "i \<le> j \<and> j < i + b"
    then show "stage_call_at t j = None"
      using stage_call_at_drop [of i j t] before by auto
  qed
  moreover have "i + b \<le> length t"
  proof -
    have "b < length (drop i t)" using stage_call_at_shape [OF call] by linarith
    then show ?thesis by simp
  qed
  ultimately have "stage_search t i = Some (i + b, i + e, map_option ((+) i) \<circ> m)"
    by (simp add: stage_search_Some m shift_marks)
  with Some r show ?thesis by simp
qed

lemma slice_drop: "slice (drop i t) x y = slice t (i + x) (i + y)"
  by (simp add: slice_def add.commute)

lemma groups_of_shift:
  "groups_of \<lparr>mo_string = t, mo_start = i + b, mo_end = i + e, mo_marks = map_option ((+) i) \<circ> m\<rparr>
     = groups_of (mo_of (drop i t) (b, e, m))"
  by (simp add: groups_of_def mo_of_def match_group_def slice_drop split: option.splits)

section \<open>The engine refines the rewrite\<close>

lemma sre_sub_loop_stage_sub:
  assumes f: "\<And>mo mo'. groups_of mo = groups_of mo' \<Longrightarrow> f mo = f mo'"
  shows "sre_sub_loop stage_pattern f t i ma = stage_sub f (drop i t)"
proof -
  have "p = stage_pattern \<Longrightarrow> (\<And>mo mo'. groups_of mo = groups_of mo' \<Longrightarrow> g mo = g mo') \<Longrightarrow>
      sre_sub_loop p g t i ma = stage_sub g (drop i t)" for p g
  proof (induction p g t i ma rule: sre_sub_loop.induct)
    case (1 p f t i ma)
    have search: "sre_search p t i ma =
        map_option (\<lambda>(b, e, m). (i + b, i + e, map_option ((+) i) \<circ> m)) (stage_search (drop i t) 0)"
      using "1.prems" by (simp add: sre_search_stage_pattern_eq stage_search_drop [of t i])
    show ?case
    proof (cases "stage_search (drop i t) 0")
      case None
      with search show ?thesis
        by (simp add: sre_sub_loop.simps [of p f t i ma] stage_sub.simps [of f "drop i t"])
    next
      case (Some r)
      obtain b e m where r: "r = (b, e, m)" by (cases r) auto
      let ?mo = "\<lparr>mo_string = t, mo_start = i + b, mo_end = i + e, mo_marks = map_option ((+) i) \<circ> m\<rparr>"
      have s: "sre_search p t i ma = Some (i + b, i + e, map_option ((+) i) \<circ> m)"
        using search Some r by simp
      have fm: "f ?mo = f (mo_of (drop i t) (b, e, m))"
        using "1.prems"(2) [OF groups_of_shift [of t i b e m]] .
      show ?thesis
      proof (cases "f ?mo")
        case (Pair res out)
        show ?thesis
        proof (cases res)
          case (Inl x)
          with Pair fm s Some r show ?thesis
            by (simp add: sre_sub_loop.simps [of p f t i ma] stage_sub.simps [of f "drop i t"])
        next
          case (Inr item)
          have "sre_sub_loop p f t (i + e) (i + e = i + b) = stage_sub f (drop (i + e) t)"
            using "1.IH" [OF s refl refl Pair [symmetric] Inr "1.prems"(1)] "1.prems"(2) by blast
          moreover have "drop (i + e) t = drop e (drop i t)" by (simp add: add.commute)
          ultimately have IH: "sre_sub_loop p f t (i + e) (e = b) = stage_sub f (drop e (drop i t))"
            by simp
          have sl: "slice t i (i + b) = take b (drop i t)" by (simp add: slice_def)
          show ?thesis
            unfolding sre_sub_loop.simps [of p f t i ma] stage_sub.simps [of f "drop i t"]
            using Pair Inr fm s Some r IH sl by (simp split: prod.split)
        qed
      qed
    qed
  qed
  from this [OF refl f] show ?thesis .
qed

section \<open>The text of one call site\<close>

lemma slice_slice:
  "b \<le> a \<Longrightarrow> c \<le> e \<Longrightarrow> slice (slice t b e) (a - b) (c - b) = slice t a c"
  by (simp add: slice_def drop_take min_def)

lemma is_call_append:
  "is_call R \<Longrightarrow> \<exists>a c g h. stage_call_at (R @ v) 0 = Some (a, c, g, h, length R)"
  unfolding is_call_def by (fastforce split: option.splits dest: stage_call_at_append [where v = v])

lemma stage_call_at_drop_Some:
  assumes "stage_call_at t b = Some (a, c, g, h, e)"
  shows "stage_call_at (drop b t) 0 = Some (a - b, c - b, g - b, h - b, e - b) \<and>
    b \<le> a \<and> a < c \<and> c < g \<and> g < h \<and> e = Suc h \<and> e \<le> length t"
proof -
  note sh = stage_call_at_shape [OF assms]
  have sa: "second_arg_at t (Suc c) = Some (g, h, e)" using sh by simp
  have arg: "Suc c \<le> g \<and> g < h \<and> e = Suc h \<and> h < length t"
    using second_arg_at_shape [OF sa] by simp
  have ac: "b + 9 = a \<and> a < c" using sh by simp
  obtain r where r: "stage_call_at (drop b t) 0 = Some r"
    using stage_call_at_drop [of b b t] assms by fastforce
  moreover obtain a' c' g' h' e' where "r = (a', c', g', h', e')" by (cases r) auto
  ultimately have "stage_call_at (drop b t) 0 = Some (a', c', g', h', e')" by simp
  moreover have "(a, c, g, h, e) = (b + a', b + c', b + g', b + h', b + e')"
    using stage_call_at_drop [of b b t] assms calculation by simp
  then have "a = b + a' \<and> c = b + c' \<and> g = b + g' \<and> h = b + h' \<and> e = b + e'" by simp
  with calculation show ?thesis using ac arg by auto
qed

lemma match_call:
  assumes "stage_search t 0 = Some (b, e, m)"
  shows "is_call (slice t b e) \<and> groups_of (mo_of t (b, e, m)) = groups_of (call_mo (slice t b e))"
proof -
  obtain a c g h where call: "stage_call_at t b = Some (a, c, g, h, e)"
    and m: "m = [0 \<mapsto> a, 1 \<mapsto> c, 2 \<mapsto> g, 3 \<mapsto> h]"
    using assms by (auto simp: stage_search_Some)
  note d = stage_call_at_drop_Some [OF call]
  let ?u = "slice t b e"
  have split: "drop b t = ?u @ drop (e - b) (drop b t)" by (simp only: slice_def append_take_drop_id)
  have be: "b \<le> e \<and> e \<le> length t" using d by linarith
  then have len: "length ?u = e - b" by (auto simp: slice_def min_def)
  have d1: "stage_call_at (drop b t) 0 = Some (a - b, c - b, g - b, h - b, e - b)"
    using d by (rule conjunct1)
  have "stage_call_at (?u @ drop (e - b) (drop b t)) 0 = Some (a - b, c - b, g - b, h - b, e - b)"
    using d1 by (subst (asm) split)
  then have u: "stage_call_at ?u 0 = Some (a - b, c - b, g - b, h - b, e - b)"
    by (rule stage_call_at_restrict) (simp only: len order_refl)
  show ?thesis
    using u len d slice_slice [of b a c e t] slice_slice [of b g h e t]
    by (simp add: is_call_def call_mo_def groups_of_def mo_of_def match_group_def m)
qed

section \<open>Replacing one call site\<close>

lemma search_splice:
  assumes s: "stage_search t 0 = Some (b, e, m)" and R: "is_call R"
  shows "\<exists>m'. stage_search (take b t @ R @ v) 0 = Some (b, b + length R, m')"
proof -
  obtain a c g h where call: "stage_call_at t b = Some (a, c, g, h, e)"
    and before: "\<forall>j. j < b \<longrightarrow> stage_call_at t j = None" and blen: "b \<le> length t"
    using s by (auto simp: stage_search_Some)
  have d1: "stage_call_at (drop b t) 0 = Some (a - b, c - b, g - b, h - b, e - b)"
    using stage_call_at_drop_Some [OF call] by (rule conjunct1)
  obtain a' c' g' h' where r: "stage_call_at (R @ v) 0 = Some (a', c', g', h', length R)"
    using is_call_append [OF R] by blast
  let ?x = "take b t"
  have lx: "length ?x = b" using blen by simp
  have "stage_call_at (?x @ R @ v) b = Some (b + a', b + c', b + g', b + h', b + length R)"
    using stage_call_at_drop [of b b "?x @ R @ v"] r lx by simp
  moreover have "\<forall>j. j < b \<longrightarrow> stage_call_at (?x @ R @ v) j = None"
  proof (intro allI impI)
    fix j assume j: "j < b"
    have "stage_call_at (?x @ drop b t) j = None" using before j by simp
    then show "stage_call_at (?x @ R @ v) j = None"
      using stage_call_at_gap [of j ?x "drop b t"] d1 r j lx by simp
  qed
  ultimately show ?thesis using lx by (simp add: stage_search_Some)
qed


lemma stage_sub_Inr:
  assumes "stage_sub f t = (Inr t', out)" and "stage_search t 0 = Some (b, e, m)"
  obtains R o1 rest o2 where "f (mo_of t (b, e, m)) = (Inr R, o1)"
    and "stage_sub f (drop e t) = (Inr rest, o2)" and "t' = take b t @ R @ rest"
proof -
  obtain res o1 where f: "f (mo_of t (b, e, m)) = (res, o1)" by fastforce
  obtain res2 o2 where sub: "stage_sub f (drop e t) = (res2, o2)" by fastforce
  have eq: "stage_sub f t = (case res of Inl x \<Rightarrow> (Inl x, o1)
      | Inr item \<Rightarrow> (map_sum id (\<lambda>rest. take b t @ item @ rest) res2, o1 @ o2))"
    using assms(2) f sub by (simp add: stage_sub.simps [of f t] split: sum.split)
  show ?thesis
    using that f sub assms(1) unfolding eq by (cases res2) (auto split: sum.splits)
qed

lemma stage_sub_idem_gen:
  assumes grp: "\<And>mo mo'. groups_of mo = groups_of mo' \<Longrightarrow> f mo = f mo'"
    and F: "\<And>u R out. is_call u \<Longrightarrow> f (call_mo u) = (Inr R, out) \<Longrightarrow>
      is_call R \<and> fst (f (call_mo R)) = Inr R"
  shows "stage_sub f t = (Inr t', out) \<Longrightarrow> fst (stage_sub f t') = Inr t'"
proof (induction "length t" arbitrary: t t' out rule: less_induct)
  case less
  show ?case
  proof (cases "stage_search t 0")
    case None
    have "t' = t" using less.prems None by (simp add: stage_sub.simps [of f t])
    with None show ?thesis by (simp add: stage_sub.simps [of f t])
  next
    case (Some r)
    obtain b e m where s: "stage_search t 0 = Some (b, e, m)" using Some by (cases r) auto
    obtain R o1 rest o2 where f: "f (mo_of t (b, e, m)) = (Inr R, o1)"
      and sub: "stage_sub f (drop e t) = (Inr rest, o2)" and t': "t' = take b t @ R @ rest"
      using stage_sub_Inr [OF less.prems s] by blast
    note mc = match_call [OF s]
    have "f (call_mo (slice t b e)) = (Inr R, o1)" using grp [OF conjunct2 [OF mc]] f by simp
    then have FR: "is_call R \<and> fst (f (call_mo R)) = Inr R"
      using F mc by blast
    have "length (drop e t) < length t" using stage_search_span [OF s] by (simp only: length_drop) arith
    from less.hyps [OF this sub] obtain o4 where IH: "stage_sub f rest = (Inr rest, o4)"
      by (cases "stage_sub f rest") auto
    obtain o3 where FR3: "f (call_mo R) = (Inr R, o3)"
      using FR by (cases "f (call_mo R)") auto
    have blen: "b \<le> length t" using stage_search_span [OF s] by simp
    obtain m' where sp: "stage_search t' 0 = Some (b, b + length R, m')"
      using search_splice [OF s, of R rest] FR t' by blast
    have sl: "slice t' b (b + length R) = R" using blen t' by (simp add: slice_def)
    have "groups_of (mo_of t' (b, b + length R, m')) = groups_of (call_mo R)"
      using match_call [OF sp] sl by simp
    then have grpR: "f (mo_of t' (b, b + length R, m')) = (Inr R, o3)"
      using grp FR3 by metis
    have dr: "drop (b + length R) t' = rest" and tk: "take b t' = take b t"
      using blen t' by simp_all
    show ?thesis
      unfolding stage_sub.simps [of f t'] sp using grpR dr IH tk t' by simp
  qed
qed

lemma stage_sub_char:
  assumes grp: "\<And>mo mo'. groups_of mo = groups_of mo' \<Longrightarrow> f mo = f mo'"
    and F: "\<And>u R out. is_call u \<Longrightarrow> f (call_mo u) = (Inr R, out) \<Longrightarrow> x \<notin> set u \<Longrightarrow> x \<notin> set R"
  shows "stage_sub f t = (Inr t', out) \<Longrightarrow> x \<notin> set t \<Longrightarrow> x \<notin> set t'"
proof (induction "length t" arbitrary: t t' out rule: less_induct)
  case less
  show ?case
  proof (cases "stage_search t 0")
    case None
    then have "t' = t" using less.prems(1) by (simp add: stage_sub.simps [of f t])
    with less.prems(2) show ?thesis by simp
  next
    case (Some r)
    obtain b e m where s: "stage_search t 0 = Some (b, e, m)" using Some by (cases r) auto
    obtain R o1 rest o2 where f: "f (mo_of t (b, e, m)) = (Inr R, o1)"
      and sub: "stage_sub f (drop e t) = (Inr rest, o2)" and t': "t' = take b t @ R @ rest"
      using stage_sub_Inr [OF less.prems(1) s] by blast
    note mc = match_call [OF s]
    have "f (call_mo (slice t b e)) = (Inr R, o1)" using grp [OF conjunct2 [OF mc]] f by simp
    moreover have "x \<notin> set (slice t b e)" using less.prems(2) set_slice_subset [of t b e] by blast
    ultimately have R: "x \<notin> set R" using F mc by blast
    have "length (drop e t) < length t" using stage_search_span [OF s] by (simp only: length_drop) arith
    moreover have "x \<notin> set (drop e t)" using less.prems(2) set_drop_subset [of e t] by blast
    ultimately have "x \<notin> set rest" using less.hyps sub by blast
    moreover have "x \<notin> set (take b t)" using less.prems(2) set_take_subset [of b t] by blast
    ultimately show ?thesis using R t' by simp
  qed
qed

end
