(* ===== verification/Base64.thy ===== *)
theory Base64
  imports Prelude
begin

text \<open>
  \<^verbatim>\<open>base64.b64encode\<close> as called by \<^verbatim>\<open>encode_file_to_base64\<close> (lines 18--21
  of \<^verbatim>\<open>src/embedPipelineShaders.py\<close>): CPython's \<^verbatim>\<open>binascii.b2a_base64\<close>
  with \<^verbatim>\<open>newline=False\<close>, translated from its C loop. Three input bytes give
  four output characters, the 6-bit indices cut out with \<^verbatim>\<open>>>\<close>,
  \<^verbatim>\<open>&\<close>, \<^verbatim>\<open><<\<close> and \<^verbatim>\<open>|\<close> on bytes; a tail of one or two bytes is
  padded with \<^verbatim>\<open>=\<close>. No intermediate value leaves the byte range, so 8-bit
  words model the C arithmetic exactly. \<open>a2b_base64\<close> is the standard
  decoder on well-formed input; it is the reference for the round trip.
\<close>

section \<open>The alphabet\<close>

definition b64_alphabet :: string where
  "b64_alphabet = ''ABCDEFGHIJKLMNOPQRSTUVWXYZabcdefghijklmnopqrstuvwxyz0123456789+/''"

text \<open>\<^verbatim>\<open>table_b2a_base64[x]\<close>.\<close>

definition b64_char :: "byte \<Rightarrow> char" where
  "b64_char x = b64_alphabet ! unat x"

text \<open>The position of a character in a list (the decoding table).\<close>

fun index_of :: "'a list \<Rightarrow> 'a \<Rightarrow> nat" where
  "index_of [] x = 0"
| "index_of (y # ys) x = (if x = y then 0 else Suc (index_of ys x))"

definition b64_value :: "char \<Rightarrow> byte" where
  "b64_value c = of_nat (index_of b64_alphabet c)"

section \<open>Encoding\<close>

text \<open>The four sextets of a full group, and those of the one- and two-byte tails.\<close>

definition sextet0 :: "byte \<Rightarrow> byte" where
  "sextet0 b0 = drop_bit 2 b0"

definition sextet1 :: "byte \<Rightarrow> byte \<Rightarrow> byte" where
  "sextet1 b0 b1 = push_bit 4 (b0 AND 0x03) OR drop_bit 4 b1"

definition sextet2 :: "byte \<Rightarrow> byte \<Rightarrow> byte" where
  "sextet2 b1 b2 = push_bit 2 (b1 AND 0x0f) OR drop_bit 6 b2"

definition sextet3 :: "byte \<Rightarrow> byte" where
  "sextet3 b2 = b2 AND 0x3f"

definition sextet1_last :: "byte \<Rightarrow> byte" where
  "sextet1_last b0 = push_bit 4 (b0 AND 0x03)"

definition sextet2_last :: "byte \<Rightarrow> byte" where
  "sextet2_last b1 = push_bit 2 (b1 AND 0x0f)"

fun b2a_base64 :: "bytes \<Rightarrow> string" where
  "b2a_base64 (b0 # b1 # b2 # bs) =
     b64_char (sextet0 b0) # b64_char (sextet1 b0 b1) # b64_char (sextet2 b1 b2)
     # b64_char (sextet3 b2) # b2a_base64 bs"
| "b2a_base64 [b0, b1] =
     [b64_char (sextet0 b0), b64_char (sextet1 b0 b1), b64_char (sextet2_last b1), CHR ''='']"
| "b2a_base64 [b0] =
     [b64_char (sextet0 b0), b64_char (sextet1_last b0), CHR ''='', CHR ''='']"
| "b2a_base64 [] = []"

section \<open>Decoding\<close>

text \<open>Reassembling bytes from sextets, as \<^verbatim>\<open>a2b_base64\<close> does.\<close>

definition byte0 :: "byte \<Rightarrow> byte \<Rightarrow> byte" where
  "byte0 s0 s1 = push_bit 2 s0 OR drop_bit 4 s1"

definition byte1 :: "byte \<Rightarrow> byte \<Rightarrow> byte" where
  "byte1 s1 s2 = push_bit 4 s1 OR drop_bit 2 s2"

definition byte2 :: "byte \<Rightarrow> byte \<Rightarrow> byte" where
  "byte2 s2 s3 = push_bit 6 s2 OR s3"

fun a2b_base64 :: "string \<Rightarrow> bytes" where
  "a2b_base64 (c0 # c1 # c2 # c3 # cs) =
     (let s0 = b64_value c0; s1 = b64_value c1; s2 = b64_value c2; s3 = b64_value c3 in
      if c2 = CHR ''='' then [byte0 s0 s1]
      else if c3 = CHR ''='' then [byte0 s0 s1, byte1 s1 s2]
      else [byte0 s0 s1, byte1 s1 s2, byte2 s2 s3] @ a2b_base64 cs)"
| "a2b_base64 cs = []"

section \<open>Lemmas\<close>

lemma length_b64_alphabet [simp]: "length b64_alphabet = 64"
  by (simp add: b64_alphabet_def)

lemma distinct_b64_alphabet: "distinct b64_alphabet"
  by (simp add: b64_alphabet_def)

lemma index_of_nth: "distinct xs \<Longrightarrow> k < length xs \<Longrightarrow> index_of xs (xs ! k) = k"
proof (induction xs arbitrary: k)
  case Nil
  then show ?case by simp
next
  case (Cons y ys)
  then show ?case by (cases k) (auto simp: nth_mem)
qed

text \<open>A byte whose top two bits are clear is a sextet.\<close>

lemma sextet_less: "x AND 0x3f = x \<Longrightarrow> unat (x :: byte) < 64"
proof -
  assume "x AND 0x3f = x"
  moreover have "unat (x AND 0x3f) \<le> unat (0x3f :: byte)"
    by (rule word_and_le1 [THEN word_le_nat_alt [THEN iffD1]])
  ultimately show ?thesis by simp
qed

lemma b64_value_b64_char: "x AND 0x3f = x \<Longrightarrow> b64_value (b64_char x) = x"
  using sextet_less [of x]
  by (simp add: b64_value_def b64_char_def index_of_nth distinct_b64_alphabet)

lemma b64_char_in_alphabet: "x AND 0x3f = x \<Longrightarrow> b64_char x \<in> set b64_alphabet"
  using sextet_less [of x] by (simp add: b64_char_def)

lemma b64_char_not_pad: "x AND 0x3f = x \<Longrightarrow> b64_char x \<noteq> CHR ''=''"
  using b64_char_in_alphabet [of x] by (auto simp: b64_alphabet_def)

text \<open>Every index the encoder computes is a sextet.\<close>

lemma sextets_bounded:
  "sextet0 b0 AND 0x3f = sextet0 b0"
  "sextet1 b0 b1 AND 0x3f = sextet1 b0 b1"
  "sextet2 b1 b2 AND 0x3f = sextet2 b1 b2"
  "sextet3 b2 AND 0x3f = sextet3 b2"
  "sextet2_last b1 AND 0x3f = sextet2_last b1"
  "sextet1_last b0 AND 0x3f = sextet1_last b0"
  unfolding sextet0_def sextet1_def sextet2_def sextet3_def sextet1_last_def sextet2_last_def
  by (rule byte_eqI; auto simp: byte_bit_simps byte_bit_high)+

text \<open>Reassembling the sextets gives the bytes back.\<close>

lemma bytes_of_sextets:
  "byte0 (sextet0 b0) (sextet1 b0 b1) = b0"
  "byte1 (sextet1 b0 b1) (sextet2 b1 b2) = b1"
  "byte2 (sextet2 b1 b2) (sextet3 b2) = b2"
  "byte1 (sextet1 b0 b1) (sextet2_last b1) = b1"
  "byte0 (sextet0 b0) (sextet1_last b0) = b0"
  unfolding sextet0_def sextet1_def sextet2_def sextet3_def sextet1_last_def sextet2_last_def
    byte0_def byte1_def byte2_def
  by (rule byte_eqI; auto simp: byte_bit_simps byte_bit_high)+

lemmas b64_group_simps =
  b64_value_b64_char [OF sextets_bounded(1)] b64_value_b64_char [OF sextets_bounded(2)]
  b64_value_b64_char [OF sextets_bounded(3)] b64_value_b64_char [OF sextets_bounded(4)]
  b64_value_b64_char [OF sextets_bounded(5)] b64_value_b64_char [OF sextets_bounded(6)]
  b64_char_not_pad [OF sextets_bounded(1)] b64_char_not_pad [OF sextets_bounded(2)]
  b64_char_not_pad [OF sextets_bounded(3)] b64_char_not_pad [OF sextets_bounded(4)]
  b64_char_not_pad [OF sextets_bounded(5)] b64_char_not_pad [OF sextets_bounded(6)]
  bytes_of_sextets

text \<open>
  C4. Round trip: decoding what \<^verbatim>\<open>b64encode\<close> produces gives back exactly
  the bytes that were encoded, for every byte string, padded tails included.
\<close>

theorem a2b_b2a_base64: "a2b_base64 (b2a_base64 bs) = bs"
  by (induction bs rule: b2a_base64.induct) (simp_all add: b64_group_simps)

text \<open>C17. The encoding has four characters for every started group of three bytes.\<close>

theorem length_b2a_base64: "length (b2a_base64 bs) = 4 * ((length bs + 2) div 3)"
proof (induction bs rule: b2a_base64.induct)
  case (1 b0 b1 b2 bs)
  have "(5 + length bs) div 3 = Suc ((length bs + 2) div 3)" by presburger
  with 1 show ?case by simp
qed simp_all

text \<open>The output consists of alphabet characters and the padding character only.\<close>

lemma set_b2a_base64: "set (b2a_base64 bs) \<subseteq> set b64_alphabet \<union> {CHR ''=''}"
  by (induction bs rule: b2a_base64.induct)
     (simp_all add: b64_char_in_alphabet sextets_bounded)

lemma b2a_base64_no_delims:
  "CHR '','' \<notin> set (b2a_base64 bs)" "CHR '')'' \<notin> set (b2a_base64 bs)"
  "CHR ''\"'' \<notin> set (b2a_base64 bs)"
  using set_b2a_base64 [of bs] by (auto simp: b64_alphabet_def)


end
