(* ===== verification/Pure_Path.thy ===== *)
theory Pure_Path
  imports Stage_Table
begin

text \<open>
  The \<^verbatim>\<open>pathlib\<close> operations \<^verbatim>\<open>src/embedPipelineShaders.py\<close> uses on
  \<^verbatim>\<open>Path\<close> objects: construction from a string (lines 25, 31), \<^verbatim>\<open>.parent\<close>
  (line 31), \<^verbatim>\<open>.stem\<close> and the \<^verbatim>\<open>/\<close> operator (line 52), and \<^verbatim>\<open>str()\<close>
  (line 59). They follow CPython's \<^verbatim>\<open>PurePosixPath\<close>: a path is a root
  (empty, \<^verbatim>\<open>/\<close> or the implementation-defined \<^verbatim>\<open>//\<close>) and a list of
  parts; parsing splits at \<^verbatim>\<open>/\<close> and drops empty and \<^verbatim>\<open>.\<close> parts, and
  keeps \<^verbatim>\<open>..\<close>.
\<close>

section \<open>Pure paths\<close>

record pure_path =
  pp_root :: string
  pp_parts :: "string list"

text \<open>\<^verbatim>\<open>str.split(sep)\<close>.\<close>

fun split_on :: "char \<Rightarrow> string \<Rightarrow> string list" where
  "split_on c [] = [[]]"
| "split_on c (x # xs) =
     (if x = c then [] # split_on c xs
      else (case split_on c xs of [] \<Rightarrow> [[x]] | y # ys \<Rightarrow> (x # y) # ys))"

text \<open>\<^verbatim>\<open>sep.join(xs)\<close>.\<close>

fun str_join :: "string \<Rightarrow> string list \<Rightarrow> string" where
  "str_join sep [] = []"
| "str_join sep [x] = x"
| "str_join sep (x # y # ys) = x @ sep @ str_join sep (y # ys)"

text \<open>\<^verbatim>\<open>_PosixFlavour.splitroot\<close>: two leading slashes are kept, three or more are one.\<close>

definition path_root_of :: "string \<Rightarrow> string" where
  "path_root_of s =
     (if take 1 s = ''/'' then
        (if length (takeWhile (\<lambda>c. c = CHR ''/'') s) = 2 then ''//'' else ''/'')
      else [])"

definition parse_path :: "string \<Rightarrow> pure_path" where
  "parse_path s =
     \<lparr>pp_root = path_root_of s,
      pp_parts = filter (\<lambda>x. x \<noteq> [] \<and> x \<noteq> ''.'') (split_on CHR ''/'' s)\<rparr>"

text \<open>\<^verbatim>\<open>str(path)\<close>: the root followed by the parts joined by \<^verbatim>\<open>/\<close>, or \<^verbatim>\<open>.\<close>.\<close>

definition path_str :: "pure_path \<Rightarrow> string" where
  "path_str p =
     (if pp_root p = [] \<and> pp_parts p = [] then ''.''
      else pp_root p @ str_join ''/'' (pp_parts p))"

definition path_name :: "pure_path \<Rightarrow> string" where
  "path_name p = (if pp_parts p = [] then [] else last (pp_parts p))"

definition path_parent :: "pure_path \<Rightarrow> pure_path" where
  "path_parent p = (if pp_parts p = [] then p else p\<lparr>pp_parts := butlast (pp_parts p)\<rparr>)"

text \<open>
  \<^verbatim>\<open>name.rfind('.')\<close> as an index, \<^verbatim>\<open>-1\<close> when there is no dot; and
  \<^verbatim>\<open>stem\<close>: the name up to its last dot when that dot is neither the first nor
  the last character, else the whole name.
\<close>

definition rfind :: "string \<Rightarrow> char \<Rightarrow> int" where
  "rfind s c = (let is = filter (\<lambda>i. s ! i = c) [0..<length s] in
                if is = [] then -1 else int (last is))"

definition path_stem :: "pure_path \<Rightarrow> string" where
  "path_stem p =
     (let name = path_name p; i = rfind name CHR ''.'' in
      if 0 < i \<and> i < int (length name) - 1 then take (nat i) name else name)"

definition path_suffix :: "pure_path \<Rightarrow> string" where
  "path_suffix p =
     (let name = path_name p; i = rfind name CHR ''.'' in
      if 0 < i \<and> i < int (length name) - 1 then drop (nat i) name else [])"

text \<open>\<^verbatim>\<open>path / key\<close>: an absolute key replaces the path, a relative one extends it.\<close>

definition path_join :: "pure_path \<Rightarrow> string \<Rightarrow> pure_path" where
  "path_join p key =
     (let q = parse_path key in
      if pp_root q \<noteq> [] then q else p\<lparr>pp_parts := pp_parts p @ pp_parts q\<rparr>)"

section \<open>Lemmas\<close>

lemma split_on_no_sep: "c \<notin> set s \<Longrightarrow> split_on c s = [s]"
  by (induction s) auto

lemma split_on_parts: "x \<in> set (split_on c s) \<Longrightarrow> c \<notin> set x"
proof (induction s arbitrary: x)
  case Nil
  then show ?case by simp
next
  case (Cons y ys)
  then show ?case
    by (auto split: if_splits list.splits)
qed

text \<open>Parsed paths are well formed: no part is empty, \<open>.\<close>, or contains a slash.\<close>

definition wf_path :: "pure_path \<Rightarrow> bool" where
  "wf_path p \<longleftrightarrow> (\<forall>x \<in> set (pp_parts p). x \<noteq> [] \<and> x \<noteq> ''.'' \<and> CHR ''/'' \<notin> set x)"

lemma wf_parse_path: "wf_path (parse_path s)"
  by (auto simp: wf_path_def parse_path_def dest: split_on_parts)

text \<open>A single part: a non-empty string other than \<open>.\<close> without a slash.\<close>

definition simple_part :: "string \<Rightarrow> bool" where
  "simple_part x \<longleftrightarrow> x \<noteq> [] \<and> x \<noteq> ''.'' \<and> CHR ''/'' \<notin> set x"

lemma parse_simple_part:
  assumes "simple_part x"
  shows "parse_path x = \<lparr>pp_root = [], pp_parts = [x]\<rparr>"
proof -
  from assms have "take 1 x \<noteq> ''/''"
    by (cases x) (auto simp: simple_part_def)
  with assms show ?thesis
    by (simp add: parse_path_def path_root_of_def split_on_no_sep simple_part_def)
qed

lemma path_join_simple:
  "simple_part x \<Longrightarrow> path_join d x = d\<lparr>pp_parts := pp_parts d @ [x]\<rparr>"
  by (simp add: path_join_def parse_simple_part)

lemma path_name_join: "simple_part x \<Longrightarrow> path_name (path_join d x) = x"
  by (simp add: path_join_simple path_name_def)

lemma path_parent_join: "simple_part x \<Longrightarrow> path_parent (path_join d x) = d"
  by (simp add: path_join_simple path_parent_def)

text \<open>The stem and the suffix split the name.\<close>

lemma sorted_le_last: "sorted xs \<Longrightarrow> x \<in> set xs \<Longrightarrow> x \<le> last xs"
proof (induction xs)
  case Nil
  then show ?case by simp
next
  case (Cons y ys)
  show ?case
  proof (cases "ys = []")
    case True
    with Cons.prems show ?thesis by simp
  next
    case False
    then have "last ys \<in> set ys" by simp
    with Cons show ?thesis by (auto simp: False)
  qed
qed

lemma rfind_cases:
  "rfind s c = -1 \<and> c \<notin> set s \<or>
   (\<exists>i. rfind s c = int i \<and> i < length s \<and> s ! i = c \<and> c \<notin> set (drop (Suc i) s))"
proof (cases "filter (\<lambda>i. s ! i = c) [0..<length s] = []")
  case True
  then have "c \<notin> set s" by (auto simp: filter_empty_conv in_set_conv_nth)
  with True show ?thesis by (simp add: rfind_def)
next
  case False
  let ?is = "filter (\<lambda>i. s ! i = c) [0..<length s]"
  have last_in: "last ?is \<in> set ?is" using False by (rule last_in_set)
  have after: "c \<notin> set (drop (Suc (last ?is)) s)"
  proof
    assume "c \<in> set (drop (Suc (last ?is)) s)"
    then obtain k where k: "k < length s - Suc (last ?is)" and "s ! (Suc (last ?is) + k) = c"
      by (auto simp: in_set_conv_nth)
    then have mem: "Suc (last ?is) + k \<in> set ?is" by auto
    have "sorted ?is" using sorted_upt [of 0 "length s"] by (rule sorted_wrt_filter)
    from this mem have "Suc (last ?is) + k \<le> last ?is"
      by (rule sorted_le_last)
    then show False by simp
  qed
  from last_in have "last ?is < length s \<and> s ! last ?is = c" by simp
  then show ?thesis using False after by (auto simp: rfind_def)
qed

lemma path_stem_suffix: "path_stem p @ path_suffix p = path_name p"
  by (simp add: path_stem_def path_suffix_def Let_def)

lemma path_suffix_one_dot: "CHR ''.'' \<notin> set (drop 1 (path_suffix p))"
proof -
  let ?n = "path_name p"
  consider "rfind ?n CHR ''.'' = -1" | i where "rfind ?n CHR ''.'' = int i"
      and "CHR ''.'' \<notin> set (drop (Suc i) ?n)"
    using rfind_cases [of ?n "CHR ''.''"] by blast
  then show ?thesis
  proof cases
    case 1
    then show ?thesis by (simp add: path_suffix_def Let_def)
  next
    case (2 i)
    then show ?thesis by (simp add: path_suffix_def Let_def)
  qed
qed

lemma path_name_no_slash: "wf_path p \<Longrightarrow> CHR ''/'' \<notin> set (path_name p)"
  by (auto simp: wf_path_def path_name_def)

lemma path_stem_no_slash: "wf_path p \<Longrightarrow> CHR ''/'' \<notin> set (path_stem p)"
  using path_name_no_slash [of p] path_stem_suffix [of p] by (metis Un_iff set_append)

text \<open>
  A stage extension has a dot after its first character, the suffix of a
  name has none, so the name of a stage file is never the name it was
  derived from.
\<close>

lemma stem_ext_not_name: "path_stem p @ stage_ext st \<noteq> path_name p"
proof
  assume eq: "path_stem p @ stage_ext st = path_name p"
  then have "stage_ext st = path_suffix p"
    using path_stem_suffix [of p] by (metis same_append_eq)
  moreover obtain m where "stage_ext st = CHR ''.'' # m @ ''.spv''"
    using stage_ext_shape [of st] by blast
  ultimately have suf: "path_suffix p = CHR ''.'' # m @ ''.spv''" by simp
  then have "drop 1 (path_suffix p) = m @ ''.spv''" by (simp only: suf) simp
  then have "CHR ''.'' \<in> set (drop 1 (path_suffix p))" by simp
  then show False using path_suffix_one_dot by blast
qed

lemma simple_stage_file: "wf_path p \<Longrightarrow> simple_part (path_stem p @ stage_ext st)"
proof -
  assume "wf_path p"
  then have "CHR ''/'' \<notin> set (path_stem p)" by (rule path_stem_no_slash)
  moreover have "path_stem p @ stage_ext st \<noteq> ''.''"
    using stage_ext_shape [of st] by (cases "path_stem p") auto
  ultimately show ?thesis
    using stage_ext_no_slash [of st] by (simp add: simple_part_def)
qed

lemma path_join_stage_file_name:
  "wf_path p \<Longrightarrow> path_name (path_join d (path_stem p @ stage_ext st)) = path_stem p @ stage_ext st"
  by (simp add: path_name_join simple_stage_file)



end
