(* ===== verification/File_System.thy ===== *)
theory File_System
  imports Pure_Path
begin

text \<open>
  The effects of \<^verbatim>\<open>src/embedPipelineShaders.py\<close> on its environment: the
  file system it reads and writes (\<^verbatim>\<open>Path.exists\<close> at line 26,
  \<^verbatim>\<open>open(..., 'rb').read()\<close> at line 20, \<^verbatim>\<open>open(..., 'r').read()\<close> at
  lines 34--35, \<^verbatim>\<open>open(..., 'w').write\<close> at lines 66--67) and standard output
  (\<^verbatim>\<open>print\<close> at lines 27, 48 and 59). The world is a record of a file
  system, the working directory and the lines printed so far. The file system
  maps absolute paths, as lists of names, to files (their bytes) and
  directories; the root is always a directory. A path is resolved against the
  working directory and its \<^verbatim>\<open>..\<close> parts are applied lexically (symbolic
  links are not modelled); the kernel then walks it name by name, failing
  with \<^verbatim>\<open>ENOENT\<close> at the first missing name and with \<^verbatim>\<open>ENOTDIR\<close> when
  a file stands where a directory is needed.

  Text mode reads decode one character per byte (the encoding is fixed to
  Latin-1, which agrees with the default UTF-8 on ASCII text) and translate
  line endings as Python's universal-newline mode does: \<^verbatim>\<open>\r\n\<close> and a
  lone \<^verbatim>\<open>\r\<close> become \<^verbatim>\<open>\n\<close>. Text mode writes encode one byte per
  character and, on POSIX, write \<^verbatim>\<open>\n\<close> as it is.
\<close>

section \<open>The world\<close>

datatype node = File bytes | Dir

record world =
  fs :: "string list \<Rightarrow> node option"
  cwd :: "string list"
  stdout :: "string list"

text \<open>Resolution against the working directory, with \<^verbatim>\<open>..\<close> taken lexically.\<close>

fun norm_parts :: "string list \<Rightarrow> string list \<Rightarrow> string list" where
  "norm_parts acc [] = acc"
| "norm_parts acc (x # xs) =
     (if x = ''..'' then norm_parts (butlast acc) xs else norm_parts (acc @ [x]) xs)"

definition abs_parts :: "world \<Rightarrow> pure_path \<Rightarrow> string list" where
  "abs_parts w p = norm_parts (if pp_root p = [] then cwd w else []) (pp_parts p)"

datatype lookup = Found node | ENOENT | ENOTDIR

text \<open>The kernel's walk from the directory \<open>pre\<close> along the remaining names.\<close>

fun walk :: "(string list \<Rightarrow> node option) \<Rightarrow> string list \<Rightarrow> string list \<Rightarrow> lookup" where
  "walk f pre [] = Found Dir"
| "walk f pre [c] = (case f (pre @ [c]) of None \<Rightarrow> ENOENT | Some n \<Rightarrow> Found n)"
| "walk f pre (c # d # cs) =
     (case f (pre @ [c]) of
        None \<Rightarrow> ENOENT
      | Some Dir \<Rightarrow> walk f (pre @ [c]) (d # cs)
      | Some (File bs) \<Rightarrow> ENOTDIR)"

definition os_stat :: "world \<Rightarrow> pure_path \<Rightarrow> lookup" where
  "os_stat w p = walk (fs w) [] (abs_parts w p)"

text \<open>
  \<^verbatim>\<open>Path.exists()\<close>: \<^verbatim>\<open>stat\<close> succeeds; \<^verbatim>\<open>ENOENT\<close> and
  \<^verbatim>\<open>ENOTDIR\<close> are caught and give \<^verbatim>\<open>False\<close>.
\<close>

definition path_exists :: "world \<Rightarrow> pure_path \<Rightarrow> bool" where
  "path_exists w p = (case os_stat w p of Found n \<Rightarrow> True | _ \<Rightarrow> False)"

section \<open>Opening files\<close>

text \<open>
  \<^verbatim>\<open>open(name, 'rb').read()\<close> and the read half of \<^verbatim>\<open>open(name, 'r')\<close>:
  the empty name is \<^verbatim>\<open>ENOENT\<close>; a directory raises
  \<^verbatim>\<open>IsADirectoryError\<close>; a name ending in a slash must be a directory.
\<close>

definition open_read :: "world \<Rightarrow> string \<Rightarrow> py_exc + bytes" where
  "open_read w name =
     (if name = [] then Inl (FileNotFoundError name)
      else case os_stat w (parse_path name) of
             ENOENT \<Rightarrow> Inl (FileNotFoundError name)
           | ENOTDIR \<Rightarrow> Inl (NotADirectoryError name)
           | Found Dir \<Rightarrow> Inl (IsADirectoryError name)
           | Found (File bs) \<Rightarrow>
               if last name = CHR ''/'' then Inl (NotADirectoryError name) else Inr bs)"

text \<open>Universal newlines: \<^verbatim>\<open>\r\n\<close> and \<^verbatim>\<open>\r\<close> read as \<^verbatim>\<open>\n\<close>.\<close>

fun universal_newlines :: "string \<Rightarrow> string" where
  "universal_newlines [] = []"
| "universal_newlines [c] = (if c = CR then [LF] else [c])"
| "universal_newlines (c # d # cs) =
     (if c = CR \<and> d = LF then LF # universal_newlines cs
      else if c = CR then LF # universal_newlines (d # cs)
      else c # universal_newlines (d # cs))"

definition decode_text :: "bytes \<Rightarrow> string" where
  "decode_text bs = universal_newlines (map char_of_byte bs)"

text \<open>\<^verbatim>\<open>with open(name, 'r') as f: content = f.read()\<close>.\<close>

definition read_text :: "world \<Rightarrow> string \<Rightarrow> py_exc + string" where
  "read_text w name = map_sum id decode_text (open_read w name)"

text \<open>
  \<^verbatim>\<open>with open(name, 'w') as f: f.write(text)\<close>: an existing file is
  truncated and rewritten, a missing one is created in an existing directory.
\<close>

definition write_text :: "world \<Rightarrow> string \<Rightarrow> string \<Rightarrow> py_exc + world" where
  "write_text w name txt =
     (let ps = abs_parts w (parse_path name);
          w' = w\<lparr>fs := (fs w)(ps \<mapsto> File (map byte_of_char txt))\<rparr> in
      if name = [] then Inl (FileNotFoundError name)
      else case os_stat w (parse_path name) of
             Found Dir \<Rightarrow> Inl (IsADirectoryError name)
           | Found (File bs) \<Rightarrow>
               if last name = CHR ''/'' then Inl (NotADirectoryError name) else Inr w'
           | ENOTDIR \<Rightarrow> Inl (NotADirectoryError name)
           | ENOENT \<Rightarrow>
               if ps \<noteq> [] \<and> walk (fs w) [] (butlast ps) = Found Dir
               then (if last name = CHR ''/'' then Inl (IsADirectoryError name) else Inr w')
               else Inl (FileNotFoundError name))"

text \<open>\<^verbatim>\<open>print(line)\<close>.\<close>

definition py_print :: "world \<Rightarrow> string \<Rightarrow> world" where
  "py_print w line = w\<lparr>stdout := stdout w @ [line]\<rparr>"

section \<open>Lemmas\<close>

text \<open>Universal newlines change nothing in a text without \<^verbatim>\<open>\r\<close>, and leave none.\<close>

lemma universal_newlines_no_CR: "CR \<notin> set s \<Longrightarrow> universal_newlines s = s"
  by (induction s rule: universal_newlines.induct) auto

text \<open>
  C16. Text read in universal-newline mode never contains a carriage return.
\<close>

theorem CR_not_in_universal_newlines: "CR \<notin> set (universal_newlines s)"
  by (induction s rule: universal_newlines.induct) auto

text \<open>What a successful walk finds is what the file system holds, under directories.\<close>

lemma walk_Found_lookup: "walk f pre ps = Found n \<Longrightarrow> ps \<noteq> [] \<Longrightarrow> f (pre @ ps) = Some n"
  by (induction f pre ps rule: walk.induct) (auto split: option.splits node.splits)

lemma walk_Found_butlast:
  "walk f pre ps = Found n \<Longrightarrow> ps \<noteq> [] \<Longrightarrow> walk f pre (butlast ps) = Found Dir"
  by (induction f pre ps rule: walk.induct) (auto split: option.splits node.splits)

lemma walk_update_last:
  "walk f pre (butlast ps) = Found Dir \<Longrightarrow> ps \<noteq> [] \<Longrightarrow> walk (f(pre @ ps \<mapsto> n)) pre ps = Found n"
proof (induction f pre "butlast ps" arbitrary: ps rule: walk.induct)
  case (1 f pre)
  then obtain c where "ps = [c]" by (cases ps rule: rev_cases) auto
  then show ?case by simp
next
  case (2 f pre c)
  then obtain d where "ps = [c, d]" by (cases ps rule: rev_cases) auto
  with 2 show ?case by (auto split: option.splits node.splits)
next
  case (3 f pre c d cs)
  then obtain e where ps: "ps = c # d # cs @ [e]" by (cases ps rule: rev_cases) auto
  with 3 have "f (pre @ [c]) = Some Dir" by (auto split: option.splits node.splits)
  with 3 ps show ?case by auto
qed

text \<open>
  A successful write changes one entry of the file system, the file named,
  and reading it back gives what was written.
\<close>

lemma write_text_Inr:
  assumes "write_text w name cs = Inr w'"
  defines "ps \<equiv> abs_parts w (parse_path name)"
  shows "w' = w\<lparr>fs := (fs w)(ps \<mapsto> File (map byte_of_char cs))\<rparr> \<and> name \<noteq> []
    \<and> last name \<noteq> CHR ''/'' \<and> ps \<noteq> [] \<and> walk (fs w) [] (butlast ps) = Found Dir"
proof (cases "walk (fs w) [] ps")
  case (Found n)
  then have "ps \<noteq> []" using assms
    by (cases n) (auto simp: write_text_def os_stat_def Let_def split: if_splits)
  with Found assms show ?thesis
    by (cases n) (auto simp: write_text_def os_stat_def Let_def walk_Found_butlast split: if_splits)
qed (use assms in \<open>auto simp: write_text_def os_stat_def Let_def split: if_splits\<close>)

lemma open_read_after_write:
  "write_text w name cs = Inr w' \<Longrightarrow> open_read w' name = Inr (map byte_of_char cs)"
  using write_text_Inr [of w name cs w']
  by (auto simp: open_read_def os_stat_def abs_parts_def walk_update_last [where pre = "[]", simplified])

text \<open>
  C12. Reading back a file just written in text mode gives the text written,
  with its line endings translated to \<^verbatim>\<open>\n\<close>.
\<close>

theorem read_text_after_write:
  "write_text w name cs = Inr w' \<Longrightarrow> read_text w' name = Inr (universal_newlines cs)"
  by (simp add: read_text_def decode_text_def open_read_after_write comp_def)

theorem read_text_after_write_witness:
  "write_text \<lparr>fs = [[''d''] \<mapsto> Dir], cwd = [], stdout = []\<rparr> ''/d/a.txt'' [CHR ''x'', CR, LF] =
     Inr \<lparr>fs = [[''d''] \<mapsto> Dir, [''d'', ''a.txt''] \<mapsto> File (map byte_of_char [CHR ''x'', CR, LF])],
          cwd = [], stdout = []\<rparr> \<and>
   read_text \<lparr>fs = [[''d''] \<mapsto> Dir, [''d'', ''a.txt''] \<mapsto> File (map byte_of_char [CHR ''x'', CR, LF])],
       cwd = [], stdout = []\<rparr> ''/d/a.txt'' = Inr [CHR ''x'', LF]"
proof -
  have w: "write_text \<lparr>fs = [[''d''] \<mapsto> Dir], cwd = [], stdout = []\<rparr> ''/d/a.txt'' [CHR ''x'', CR, LF] =
     Inr \<lparr>fs = [[''d''] \<mapsto> Dir, [''d'', ''a.txt''] \<mapsto> File (map byte_of_char [CHR ''x'', CR, LF])],
          cwd = [], stdout = []\<rparr>"
    by (simp add: write_text_def os_stat_def abs_parts_def parse_path_def path_root_of_def)
  show ?thesis using read_text_after_write [OF w] w by simp
qed

section \<open>Well-formed worlds\<close>

text \<open>Below a directory the walk finds what the file system holds.\<close>

lemma walk_last:
  "walk f pre (butlast ps) = Found Dir \<Longrightarrow> ps \<noteq> [] \<Longrightarrow>
     walk f pre ps = (case f (pre @ ps) of None \<Rightarrow> ENOENT | Some n \<Rightarrow> Found n)"
proof (induction f pre "butlast ps" arbitrary: ps rule: walk.induct)
  case (1 f pre)
  then obtain c where "ps = [c]" by (cases ps rule: rev_cases) auto
  then show ?case by simp
next
  case (2 f pre c)
  then obtain d where "ps = [c, d]" by (cases ps rule: rev_cases) auto
  with 2 show ?case by (auto split: option.splits node.splits)
next
  case (3 f pre c d cs)
  then obtain e where ps: "ps = c # d # cs @ [e]" by (cases ps rule: rev_cases) auto
  with 3 have "f (pre @ [c]) = Some Dir" by (auto split: option.splits node.splits)
  with 3 ps show ?case by auto
qed

text \<open>
  A world is well formed when every entry of its file system lies in a
  directory: the root is not an entry, and the parent of every entry below the
  root is a directory. This is the invariant the kernel keeps; the program's
  write keeps it too.
\<close>

definition wf_world :: "world \<Rightarrow> bool" where
  "wf_world w \<longleftrightarrow>
     (\<forall>ps n. fs w ps = Some n \<longrightarrow> ps \<noteq> [] \<and> (butlast ps \<noteq> [] \<longrightarrow> fs w (butlast ps) = Some Dir))"

text \<open>A write that succeeds never replaces a directory.\<close>

lemma write_text_not_dir:
  assumes "write_text w name cs = Inr w'"
  shows "fs w (abs_parts w (parse_path name)) \<noteq> Some Dir"
proof
  let ?ps = "abs_parts w (parse_path name)"
  assume dir: "fs w ?ps = Some Dir"
  from write_text_Inr [OF assms] have "?ps \<noteq> []" and "walk (fs w) [] (butlast ?ps) = Found Dir"
    by simp_all
  then have "os_stat w (parse_path name) = Found Dir"
    using walk_last [of "fs w" "[]" ?ps] dir by (simp add: os_stat_def)
  with assms show False by (simp add: write_text_def Let_def split: if_splits)
qed

lemma write_text_wf_world:
  assumes wf: "wf_world w" and wr: "write_text w name cs = Inr w'"
  shows "wf_world w'"
proof -
  let ?ps = "abs_parts w (parse_path name)"
  from write_text_Inr [OF wr] have w': "w' = w\<lparr>fs := (fs w)(?ps \<mapsto> File (map byte_of_char cs))\<rparr>"
    and ne: "?ps \<noteq> []" and par: "walk (fs w) [] (butlast ?ps) = Found Dir"
    by simp_all
  have par_dir: "butlast ?ps \<noteq> [] \<Longrightarrow> fs w (butlast ?ps) = Some Dir"
    using walk_Found_lookup [OF par] by simp
  have nd: "fs w ?ps \<noteq> Some Dir" by (rule write_text_not_dir [OF wr])
  have child: "fs w q = Some n \<Longrightarrow> butlast q \<noteq> [] \<Longrightarrow> butlast q \<noteq> ?ps" for q n
    using wf nd by (auto simp: wf_world_def)
  show ?thesis
    unfolding wf_world_def w'
  proof (intro allI impI)
    fix q n
    assume q: "fs (w\<lparr>fs := (fs w)(?ps \<mapsto> File (map byte_of_char cs))\<rparr>) q = Some n"
    show "q \<noteq> [] \<and> (butlast q \<noteq> [] \<longrightarrow>
        fs (w\<lparr>fs := (fs w)(?ps \<mapsto> File (map byte_of_char cs))\<rparr>) (butlast q) = Some Dir)"
    proof (cases "q = ?ps")
      case True
      have "butlast ?ps \<noteq> ?ps" using ne by (cases ?ps rule: rev_cases) auto
      then show ?thesis using True ne par_dir by auto
    next
      case False
      with q have "fs w q = Some n" by simp
      with wf child [OF this] show ?thesis by (auto simp: wf_world_def)
    qed
  qed
qed

end
