(* ===== verification/Rewriter.thy ===== *)
theory Rewriter
  imports Stage_Pattern Base64 File_System
begin

text \<open>
  The program proper, \<^verbatim>\<open>src/embedPipelineShaders.py\<close> lines 18--75, on top
  of the models of the table (\<open>Stage_Table\<close>), the pattern and \<^verbatim>\<open>re.sub\<close>
  (\<open>Sre\<close>, \<open>Stage_Pattern\<close>), \<^verbatim>\<open>b64encode\<close> (\<open>Base64\<close>), \<^verbatim>\<open>pathlib\<close>
  (\<open>Pure_Path\<close>) and the file system and console (\<open>File_System\<close>). Every
  operation takes the world and returns the new world with either a value or
  the exception that escapes (\<open>Inl\<close>). The callback \<^verbatim>\<open>replacer\<close> only
  reads the world; its printed lines are returned with its value and appended
  to standard output by \<^verbatim>\<open>re.sub\<close>'s caller in the order of the matches.
\<close>

section \<open>Reading a shader binary\<close>

text \<open>
  \<^verbatim>\<open>encode_file_to_base64(file_path)\<close>: read the bytes, encode them; the
  \<^verbatim>\<open>.decode('utf-8')\<close> of the ASCII result is the identity on characters.
\<close>

definition encode_file_to_base64 :: "world \<Rightarrow> string \<Rightarrow> py_exc + string" where
  "encode_file_to_base64 w file_path = map_sum id b2a_base64 (open_read w file_path)"

section \<open>The callback\<close>

text \<open>\<^verbatim>\<open>str(x)\<close> for a group that may be \<^verbatim>\<open>None\<close>.\<close>

definition py_str_opt :: "string option \<Rightarrow> string" where
  "py_str_opt x = (case x of None \<Rightarrow> ''None'' | Some t \<Rightarrow> t)"

text \<open>\<^verbatim>\<open>STAGE_EXTENSIONS.get(stage_type)\<close>; \<^verbatim>\<open>None\<close> is no key of the table.\<close>

definition get_extension :: "string option \<Rightarrow> string option" where
  "get_extension k = (case k of None \<Rightarrow> None | Some t \<Rightarrow> stage_extension_get t)"

definition unrecognized_msg :: "string option \<Rightarrow> string" where
  "unrecognized_msg stage_type =
     ''Warning: Unrecognized stage type '' @ [CHR 0x27] @ py_str_opt stage_type @ [CHR 0x27]
     @ ''. Skipping.''"

definition not_found_msg :: "pure_path \<Rightarrow> string" where
  "not_found_msg stage_file =
     ''Warning: File '' @ [CHR 0x27] @ path_str stage_file @ [CHR 0x27] @ '' not found. Skipping.''"

text \<open>The replacement text of line 57.\<close>

definition inlined_call :: "string \<Rightarrow> string \<Rightarrow> string" where
  "inlined_call encoded stage_type =
     ''addStage(base64'' @ [CHR 0x22] @ encoded @ [CHR 0x22] @ '', '' @ stage_type @ '')''"

text \<open>\<^verbatim>\<open>shader_directory / f"{input_path.stem}{extension}"\<close>, line 52.\<close>

definition stage_file_of :: "pure_path \<Rightarrow> pure_path \<Rightarrow> string \<Rightarrow> pure_path" where
  "stage_file_of shader_directory input_path extension =
     path_join shader_directory (path_stem input_path @ extension)"

text \<open>
  \<^verbatim>\<open>replacer(match)\<close>, closing over \<^verbatim>\<open>shader_directory\<close> and
  \<^verbatim>\<open>input_path\<close>: an unknown stage type is warned about and the match kept;
  otherwise the binary \<^verbatim>\<open>shader_directory / (stem + extension)\<close> is encoded,
  and a missing binary (\<^verbatim>\<open>FileNotFoundError\<close>, the only exception caught)
  is warned about and the match kept. Any other exception escapes.
\<close>

definition replacer :: "world \<Rightarrow> pure_path \<Rightarrow> pure_path \<Rightarrow> sre_match_obj
    \<Rightarrow> (py_exc + string) \<times> string list" where
  "replacer w shader_directory input_path mo =
     (let stage_type = match_group mo 2;
          first_arg = match_group mo 1;
          extension = get_extension stage_type;
          whole = py_str_opt (match_group mo 0) in
      if py_not_str_opt extension then (Inr whole, [unrecognized_msg stage_type])
      else
        let stage_file = stage_file_of shader_directory input_path (the extension) in
        case encode_file_to_base64 w (path_str stage_file) of
          Inr encoded_content \<Rightarrow> (Inr (inlined_call encoded_content (py_str_opt stage_type)), [])
        | Inl (FileNotFoundError name) \<Rightarrow> (Inr whole, [not_found_msg stage_file])
        | Inl e \<Rightarrow> (Inl e, []))"

section \<open>The procedure\<close>

definition missing_input_msg :: "string \<Rightarrow> string" where
  "missing_input_msg input_file =
     ''Error: File '' @ [CHR 0x27] @ input_file @ [CHR 0x27] @ '' does not exist.''"

text \<open>
  Line 31, \<^verbatim>\<open>Path(shader_path) if shader_path else input_path.parent\<close>:
  an empty \<^verbatim>\<open>--shader-path\<close> counts as absent.
\<close>

definition shader_directory_of :: "string option \<Rightarrow> pure_path \<Rightarrow> pure_path" where
  "shader_directory_of shader_path input_path =
     (if py_not_str_opt shader_path then path_parent input_path else parse_path (the shader_path))"

text \<open>\<^verbatim>\<open>replace_stage_files_with_base64(input_file, shader_path)\<close>.\<close>

definition replace_stage_files_with_base64 :: "string \<Rightarrow> string option \<Rightarrow> world
    \<Rightarrow> (py_exc + unit) \<times> world" where
  "replace_stage_files_with_base64 input_file shader_path w =
     (let input_path = parse_path input_file in
      if \<not> path_exists w input_path
      then (Inr (), py_print w (missing_input_msg input_file))
      else
        let shader_directory = shader_directory_of shader_path input_path in
        case read_text w input_file of
          Inl e \<Rightarrow> (Inl e, w)
        | Inr content \<Rightarrow>
            (case sre_sub stage_pattern (replacer w shader_directory input_path) content of
               (Inl e, out) \<Rightarrow> (Inl e, w\<lparr>stdout := stdout w @ out\<rparr>)
             | (Inr updated_content, out) \<Rightarrow>
                 (let w1 = w\<lparr>stdout := stdout w @ out\<rparr> in
                  case write_text w1 input_file updated_content of
                    Inl e \<Rightarrow> (Inl e, w1)
                  | Inr w2 \<Rightarrow> (Inr (), w2))))"

section \<open>The entry point\<close>

text \<open>The arguments \<^verbatim>\<open>argparse\<close> produces: the positional file and the optional shader path.\<close>

record cli_args =
  arg_file :: string
  arg_shader_path :: "string option"

definition main :: "cli_args \<Rightarrow> world \<Rightarrow> (py_exc + unit) \<times> world" where
  "main args w = replace_stage_files_with_base64 (arg_file args) (arg_shader_path args) w"

section \<open>The callback on each branch\<close>

lemma get_extension_Some: "get_extension (Some t) = stage_extension_get t"
  by (simp add: get_extension_def)

lemma py_not_str_opt_Some_ext:
  "stage_extension_get t = Some ext \<Longrightarrow> \<not> py_not_str_opt (Some ext)"
  using py_not_stage_extension_get [of t] by simp

text \<open>
  C3. For a match whose second group names a stage of the table, whose
  binary \<^verbatim>\<open>shader_directory / (stem + extension)\<close> can be read, the
  callback returns the call with the first argument replaced by the base64
  text of the binary in quotes, the stage type kept, and prints nothing.
\<close>

theorem replacer_inline:
  assumes "match_group mo 2 = Some t" and "stage_extension_get t = Some ext"
    and "open_read w (path_str (stage_file_of d p ext)) = Inr bs"
  shows "replacer w d p mo = (Inr (inlined_call (b2a_base64 bs) t), [])"
  using assms py_not_str_opt_Some_ext [OF assms(2)]
  by (simp add: replacer_def get_extension_def encode_file_to_base64_def py_str_opt_def)

text \<open>
  C8. For a match whose second group is no key of the table, the callback
  keeps the matched text and prints the unrecognized-stage warning.
\<close>

theorem replacer_unrecognized:
  assumes "match_group mo 2 = Some t" and "stage_extension_get t = None"
  shows "replacer w d p mo = (Inr (py_str_opt (match_group mo 0)), [unrecognized_msg (Some t)])"
  using assms by (simp add: replacer_def get_extension_def py_not_str_opt_def)

text \<open>
  C9. When the binary of a recognized stage does not exist
  (\<^verbatim>\<open>FileNotFoundError\<close>), the callback keeps the matched text and
  prints the file-not-found warning naming the binary.
\<close>

theorem replacer_missing:
  assumes "match_group mo 2 = Some t" and "stage_extension_get t = Some ext"
    and "open_read w (path_str (stage_file_of d p ext)) = Inl (FileNotFoundError n)"
  shows "replacer w d p mo =
    (Inr (py_str_opt (match_group mo 0)), [not_found_msg (stage_file_of d p ext)])"
  using assms py_not_str_opt_Some_ext [OF assms(2)]
  by (simp add: replacer_def get_extension_def encode_file_to_base64_def)

text \<open>Any other failure to read the binary escapes from the callback.\<close>

lemma replacer_escape:
  assumes "match_group mo 2 = Some t" and "stage_extension_get t = Some ext"
    and "open_read w (path_str (stage_file_of d p ext)) = Inl e"
    and "\<forall>n. e \<noteq> FileNotFoundError n"
  shows "replacer w d p mo = (Inl e, [])"
  using assms py_not_str_opt_Some_ext [OF assms(2)]
  by (cases e) (simp_all add: replacer_def get_extension_def encode_file_to_base64_def)

section \<open>The procedure on each branch\<close>

lemma open_read_Inr:
  "open_read w name = Inr bs \<Longrightarrow>
     name \<noteq> [] \<and> last name \<noteq> CHR ''/'' \<and> os_stat w (parse_path name) = Found (File bs)"
  by (auto simp: open_read_def split: if_splits lookup.splits node.splits)

lemma open_read_exists: "open_read w name = Inr bs \<Longrightarrow> path_exists w (parse_path name)"
  by (simp add: path_exists_def open_read_Inr)

lemma open_read_fs:
  "open_read w name = Inr bs \<Longrightarrow> fs w (abs_parts w (parse_path name)) = Some (File bs)"
  using open_read_Inr [of w name bs] walk_Found_lookup [of "fs w" "[]" "abs_parts w (parse_path name)"]
  by (cases "abs_parts w (parse_path name) = []") (auto simp: os_stat_def)

lemma write_text_existing:
  "open_read w name = Inr bs \<Longrightarrow>
     write_text w name cs = Inr (w\<lparr>fs := (fs w)(abs_parts w (parse_path name) \<mapsto> File (map byte_of_char cs))\<rparr>)"
  using open_read_Inr [of w name bs] by (simp add: write_text_def)

lemma read_text_Inr: "open_read w name = Inr bs \<Longrightarrow> read_text w name = Inr (decode_text bs)"
  by (simp add: read_text_def)

lemma open_read_stdout [simp]: "open_read (w\<lparr>stdout := out\<rparr>) name = open_read w name"
  by (simp add: open_read_def os_stat_def abs_parts_def)

text \<open>
  C7. A missing input file is reported on standard output and nothing else
  happens: no exception, the file system untouched.
\<close>

theorem replace_missing_input:
  "\<not> path_exists w (parse_path f) \<Longrightarrow>
     replace_stage_files_with_base64 f sp w = (Inr (), py_print w (missing_input_msg f))"
  by (simp add: replace_stage_files_with_base64_def)

lemma sre_sub_stage_pattern_no_prefix:
  "\<not> sublist ''addStage('' s \<Longrightarrow> sre_sub stage_pattern f s = (Inr s, [])"
  by (simp add: sre_sub_no_match sre_search_stage_pattern_eq stage_search_no_prefix)

text \<open>
  C5. An input file without the text \<^verbatim>\<open>addStage(\<close> and without carriage
  returns is left exactly as it was, and nothing is printed: the program's
  effect on the world is the identity.
\<close>

theorem replace_unchanged:
  assumes rd: "open_read w f = Inr bs" and nocr: "CR \<notin> set (map char_of_byte bs)"
    and nocall: "\<not> sublist ''addStage('' (map char_of_byte bs)"
  shows "replace_stage_files_with_base64 f sp w = (Inr (), w)"
proof -
  have content: "read_text w f = Inr (map char_of_byte bs)"
    using rd nocr by (simp add: read_text_Inr decode_text_def universal_newlines_no_CR)
  have wr: "write_text w f (map char_of_byte bs) = Inr w"
    using write_text_existing [OF rd, of "map char_of_byte bs"] open_read_fs [OF rd]
    by (simp add: fun_upd_idem comp_def)
  show ?thesis
    using open_read_exists [OF rd] content wr nocall
    by (simp add: replace_stage_files_with_base64_def sre_sub_stage_pattern_no_prefix)
qed

text \<open>
  C6. Whatever happens, the program changes no entry of the file system but
  the input file's, keeps the working directory, and only appends to standard
  output.
\<close>

theorem replace_frame:
  assumes "replace_stage_files_with_base64 f sp w = (r, w')"
  shows "cwd w' = cwd w \<and> (\<exists>out. stdout w' = stdout w @ out) \<and>
    (\<forall>q. q \<noteq> abs_parts w (parse_path f) \<longrightarrow> fs w' q = fs w q)"
proof -
  have wt: "write_text w1 f cs = Inr w2 \<Longrightarrow> cwd w1 = cwd w \<Longrightarrow>
      cwd w2 = cwd w \<and> stdout w2 = stdout w1 \<and>
      (\<forall>q. q \<noteq> abs_parts w (parse_path f) \<longrightarrow> fs w2 q = fs w1 q)" for w1 cs w2
    using write_text_Inr [of w1 f cs w2] by (auto simp: abs_parts_def)
  show ?thesis
    using assms wt
    by (auto simp: replace_stage_files_with_base64_def py_print_def Let_def
        split: if_splits sum.splits prod.splits)
qed

text \<open>The two outcomes once the input has been read.\<close>

lemma replace_run:
  assumes rd: "open_read w f = Inr bs"
    and sub: "sre_sub stage_pattern
      (replacer w (shader_directory_of sp (parse_path f)) (parse_path f)) (decode_text bs) = (Inr s', out)"
  shows "replace_stage_files_with_base64 f sp w =
    (Inr (), w\<lparr>fs := (fs w)(abs_parts w (parse_path f) \<mapsto> File (map byte_of_char s')),
               stdout := stdout w @ out\<rparr>)"
proof -
  have "open_read (w\<lparr>stdout := stdout w @ out\<rparr>) f = Inr bs"
    using rd by simp
  from write_text_existing [OF this, of s'] show ?thesis
    using open_read_exists [OF rd] read_text_Inr [OF rd] sub
    by (simp add: replace_stage_files_with_base64_def abs_parts_def)
qed

lemma replace_raise:
  assumes rd: "open_read w f = Inr bs"
    and sub: "sre_sub stage_pattern
      (replacer w (shader_directory_of sp (parse_path f)) (parse_path f)) (decode_text bs) = (Inl e, out)"
  shows "replace_stage_files_with_base64 f sp w = (Inl e, w\<lparr>stdout := stdout w @ out\<rparr>)"
  using open_read_exists [OF rd] read_text_Inr [OF rd] sub
  by (simp add: replace_stage_files_with_base64_def)


section \<open>Where the binaries are looked for\<close>

text \<open>
  C13. The binary of a stage is looked for in the shader directory, under the
  input's stem followed by the stage's extension, and that name is never the
  input file's own name.
\<close>

theorem stage_file_location:
  "path_parent (stage_file_of d (parse_path f) (stage_ext st)) = d \<and>
   path_name (stage_file_of d (parse_path f) (stage_ext st)) = path_stem (parse_path f) @ stage_ext st \<and>
   path_name (stage_file_of d (parse_path f) (stage_ext st)) \<noteq> path_name (parse_path f)"
  using simple_stage_file [OF wf_parse_path] stem_ext_not_name
  by (simp add: stage_file_of_def path_parent_join path_name_join)

section \<open>Completion\<close>

text \<open>
  When every stage binary can be read or is missing, the callback returns a
  text for every match.
\<close>

lemma replacer_total:
  assumes "\<forall>st e. open_read w (path_str (stage_file_of d p (stage_ext st))) = Inl e \<longrightarrow>
      (\<exists>n. e = FileNotFoundError n)"
  shows "\<exists>r out. replacer w d p mo = (Inr r, out)"
proof (cases "py_not_str_opt (get_extension (match_group mo 2))")
  case True
  then show ?thesis by (simp add: replacer_def Let_def)
next
  case False
  then obtain t ext where t: "match_group mo 2 = Some t" and ext: "stage_extension_get t = Some ext"
    by (auto simp: get_extension_def py_not_str_opt_def split: option.splits)
  then obtain st where "ext = stage_ext st" using stage_extension_get_ext by blast
  with assms have "\<forall>e. open_read w (path_str (stage_file_of d p ext)) = Inl e \<longrightarrow>
      (\<exists>n. e = FileNotFoundError n)" by blast
  then have bin: "open_read w (path_str (stage_file_of d p ext)) \<in> range Inr \<union> range (Inl \<circ> FileNotFoundError)"
    by (cases "open_read w (path_str (stage_file_of d p ext))") auto
  with t ext False show ?thesis
    by (auto simp: replacer_def Let_def get_extension_def encode_file_to_base64_def)
qed


section \<open>The world invariant\<close>

lemma wf_world_stdout [simp]: "wf_world (w\<lparr>stdout := out\<rparr>) = wf_world w"
  by (simp add: wf_world_def)


end
