(* ===== verification/Scenarios.thy ===== *)
theory Scenarios
  imports Rewriter
begin

text \<open>
  Runs of the whole program on small concrete worlds, evaluated in the
  kernel: a pipeline file with three call sites (an inlined stage, a stage
  whose binary is missing, an unknown stage type), a file without call sites,
  a file with Windows line endings, a stray \<^verbatim>\<open>addStage(\<close> that is not a
  call, and a \<^verbatim>\<open>--shader-path\<close> naming a regular file. They instantiate
  the general theorems of \<open>Rewriter\<close> and record the behaviours that the
  spec does not describe.
\<close>

section \<open>The example worlds\<close>

abbreviation demo_src :: string where
  "demo_src \<equiv> ''addStage(v, vertex); addStage(f, fragment); addStage(x, mesh);''"

abbreviation demo_world :: world where
  "demo_world \<equiv> \<lparr>fs = [[''proj''] \<mapsto> Dir, [''proj'', ''foo.pipeline''] \<mapsto> File (map byte_of_char demo_src),
     [''proj'', ''foo.vert.spv''] \<mapsto> File [1, 2, 3]], cwd = [], stdout = []\<rparr>"

abbreviation demo_out :: string where
  "demo_out \<equiv> ''addStage(base64\"AQID\", vertex); addStage(f, fragment); addStage(x, mesh);''"

abbreviation demo_log :: "string list" where
  "demo_log \<equiv> [''Warning: File '' @ [CHR 0x27] @ ''/proj/foo.frag.spv'' @ [CHR 0x27] @ '' not found. Skipping.'',
      ''Warning: Unrecognized stage type '' @ [CHR 0x27] @ ''mesh'' @ [CHR 0x27] @ ''. Skipping.'']"

abbreviation demo_rewritten :: world where
  "demo_rewritten \<equiv> demo_world\<lparr>fs := (fs demo_world)([''proj'', ''foo.pipeline''] \<mapsto> File (map byte_of_char demo_out)),
     stdout := demo_log\<rparr>"

abbreviation plain_world :: world where
  "plain_world \<equiv> \<lparr>fs = [[''a.txt''] \<mapsto> File (map byte_of_char ''void main();'')], cwd = [], stdout = []\<rparr>"

abbreviation crlf_world :: world where
  "crlf_world \<equiv> \<lparr>fs = [[''a.txt''] \<mapsto> File (map byte_of_char [CHR ''a'', CR, LF, CHR ''b''])],
     cwd = [], stdout = []\<rparr>"

abbreviation stray_src :: string where
  "stray_src \<equiv> ''addStage(x); f(a, vertex)''"

abbreviation stray_world :: world where
  "stray_world \<equiv> \<lparr>fs = [[''proj''] \<mapsto> Dir, [''proj'', ''foo.pipeline''] \<mapsto> File (map byte_of_char stray_src),
     [''proj'', ''foo.vert.spv''] \<mapsto> File [1, 2, 3]], cwd = [], stdout = []\<rparr>"

abbreviation override_world :: world where
  "override_world \<equiv> \<lparr>fs = [[''proj''] \<mapsto> Dir, [''shaders''] \<mapsto> Dir,
     [''proj'', ''foo.pipeline''] \<mapsto> File (map byte_of_char ''addStage(f, fragment);''),
     [''proj'', ''foo.frag.spv''] \<mapsto> File [4, 5, 6], [''shaders'', ''foo.frag.spv''] \<mapsto> File [1, 2, 3]],
     cwd = [], stdout = []\<rparr>"

abbreviation multi_src :: string where
  "multi_src \<equiv> ''a addStage(v.spv, vertex) b addStage(f.spv, fragment) c''"

abbreviation multi_world :: world where
  "multi_world \<equiv> \<lparr>fs = [[''proj''] \<mapsto> Dir,
     [''proj'', ''foo.pipeline''] \<mapsto> File (map byte_of_char multi_src),
     [''proj'', ''foo.vert.spv''] \<mapsto> File [1, 2, 3], [''proj'', ''foo.frag.spv''] \<mapsto> File [255]],
     cwd = [], stdout = []\<rparr>"

section \<open>Evaluation\<close>

lemmas run_eval = replacer_def match_group_def slice_def get_extension_def stage_extension_get_def
  STAGE_EXTENSIONS_def py_not_str_opt_def stage_file_of_def path_join_def parse_path_def
  path_root_of_def path_stem_def path_name_def rfind_def path_str_def encode_file_to_base64_def
  open_read_def os_stat_def abs_parts_def py_str_opt_def not_found_msg_def unrecognized_msg_def
  inlined_call_def b64_char_def b64_alphabet_def sextet0_def sextet1_def sextet2_def sextet3_def
  sextet1_last_def sextet2_last_def

text \<open>The three call sites of the example pipeline and what the callback makes of them.\<close>

lemma demo_search:
  "sre_search stage_pattern demo_src 0 ma = Some (0, 19, [0 \<mapsto> 9, 1 \<mapsto> 10, 2 \<mapsto> 12, 3 \<mapsto> 18])"
  "sre_search stage_pattern demo_src 19 ma = Some (21, 42, [0 \<mapsto> 30, 1 \<mapsto> 31, 2 \<mapsto> 33, 3 \<mapsto> 41])"
  "sre_search stage_pattern demo_src 42 ma = Some (44, 61, [0 \<mapsto> 53, 1 \<mapsto> 54, 2 \<mapsto> 56, 3 \<mapsto> 60])"
  "sre_search stage_pattern demo_src 61 ma = None"
  by (simp_all add: sre_search_stage_pattern_eq stage_search.simps stage_call_at_def
        second_arg_at_def sre_count_def is_uni_space_def)

lemma demo_replacer:
  "replacer demo_world \<lparr>pp_root = ''/'', pp_parts = [''proj'']\<rparr> (parse_path ''/proj/foo.pipeline'')
      \<lparr>mo_string = demo_src, mo_start = 0, mo_end = 19, mo_marks = [0 \<mapsto> 9, 1 \<mapsto> 10, 2 \<mapsto> 12, 3 \<mapsto> 18]\<rparr>
    = (Inr ''addStage(base64\"AQID\", vertex)'', [])"
  "replacer demo_world \<lparr>pp_root = ''/'', pp_parts = [''proj'']\<rparr> (parse_path ''/proj/foo.pipeline'')
      \<lparr>mo_string = demo_src, mo_start = 21, mo_end = 42, mo_marks = [0 \<mapsto> 30, 1 \<mapsto> 31, 2 \<mapsto> 33, 3 \<mapsto> 41]\<rparr>
    = (Inr ''addStage(f, fragment)'', [''Warning: File '' @ [CHR 0x27] @ ''/proj/foo.frag.spv'' @ [CHR 0x27] @ '' not found. Skipping.''])"
  "replacer demo_world \<lparr>pp_root = ''/'', pp_parts = [''proj'']\<rparr> (parse_path ''/proj/foo.pipeline'')
      \<lparr>mo_string = demo_src, mo_start = 44, mo_end = 61, mo_marks = [0 \<mapsto> 53, 1 \<mapsto> 54, 2 \<mapsto> 56, 3 \<mapsto> 60]\<rparr>
    = (Inr ''addStage(x, mesh)'', [''Warning: Unrecognized stage type '' @ [CHR 0x27] @ ''mesh'' @ [CHR 0x27] @ ''. Skipping.''])"
  by (simp_all add: run_eval)

lemma demo_rd: "open_read demo_world ''/proj/foo.pipeline'' = Inr (map byte_of_char demo_src)"
  by (simp add: open_read_def os_stat_def abs_parts_def parse_path_def path_root_of_def)

lemma demo_dir:
  "shader_directory_of None (parse_path ''/proj/foo.pipeline'') = \<lparr>pp_root = ''/'', pp_parts = [''proj'']\<rparr>"
  by (simp add: shader_directory_of_def py_not_str_opt_def path_parent_def parse_path_def path_root_of_def)

lemma demo_sub:
  "sre_sub stage_pattern (replacer demo_world \<lparr>pp_root = ''/'', pp_parts = [''proj'']\<rparr>
      (parse_path ''/proj/foo.pipeline'')) (decode_text (map byte_of_char demo_src)) = (Inr demo_out, demo_log)"
proof -
  let ?f = "replacer demo_world \<lparr>pp_root = ''/'', pp_parts = [''proj'']\<rparr> (parse_path ''/proj/foo.pipeline'')"
  note st1 = sre_sub_loop_step [where f = ?f, OF demo_search(1) demo_replacer(1)]
  note st2 = sre_sub_loop_step [where f = ?f, OF demo_search(2) demo_replacer(2)]
  note st3 = sre_sub_loop_step [where f = ?f, OF demo_search(3) demo_replacer(3)]
  note nm = sre_sub_loop_no_match [where f = ?f, OF demo_search(4)]
  have dec: "decode_text (map byte_of_char demo_src) = demo_src"
    by (simp add: decode_text_def)
  show ?thesis
    unfolding sre_sub_def dec st1 st2 st3 nm by (simp add: slice_def)
qed

lemma override_run:
  "replace_stage_files_with_base64 ''/proj/foo.pipeline'' (Some ''/shaders'') override_world =
     (Inr (), override_world\<lparr>fs := (fs override_world)([''proj'', ''foo.pipeline''] \<mapsto>
        File (map byte_of_char ''addStage(base64\"AQID\", fragment);''))\<rparr>)"
proof -
  let ?src = "''addStage(f, fragment);''"
  let ?p = "parse_path ''/proj/foo.pipeline''"
  let ?d = "\<lparr>pp_root = ''/'', pp_parts = [''shaders'']\<rparr>"
  let ?m = "[0 \<mapsto> 9, 1 \<mapsto> 10, 2 \<mapsto> 12, 3 \<mapsto> 20]"
  have rd: "open_read override_world ''/proj/foo.pipeline'' = Inr (map byte_of_char ?src)"
    by (simp add: open_read_def os_stat_def abs_parts_def parse_path_def path_root_of_def)
  have dec: "decode_text (map byte_of_char ?src) = ?src"
    by (simp add: decode_text_def)
  have d: "shader_directory_of (Some ''/shaders'') ?p = ?d"
    by (simp add: shader_directory_of_def py_not_str_opt_def parse_path_def path_root_of_def)
  have s0: "sre_search stage_pattern ?src 0 False = Some (0, 21, ?m)"
    and s1: "sre_search stage_pattern ?src 21 ma = None" for ma
    by (simp_all add: sre_search_stage_pattern_eq stage_search.simps stage_call_at_def
        second_arg_at_def sre_count_def is_uni_space_def)
  have r: "replacer override_world ?d ?p \<lparr>mo_string = ?src, mo_start = 0, mo_end = 21, mo_marks = ?m\<rparr>
      = (Inr ''addStage(base64\"AQID\", fragment)'', [])"
    by (simp add: run_eval)
  have sub: "sre_sub stage_pattern (replacer override_world ?d ?p) ?src
      = (Inr ''addStage(base64\"AQID\", fragment);'', [])"
    unfolding sre_sub_def sre_sub_loop_step [where f = "replacer override_world ?d ?p", OF s0 r]
      sre_sub_loop_no_match [OF s1]
    by (simp add: slice_def)
  note run = replace_run [OF rd, of "Some ''/shaders''", unfolded d dec, OF sub]
  show ?thesis unfolding run
    by (simp add: abs_parts_def parse_path_def path_root_of_def)
qed

section \<open>The general theorems at the examples\<close>


theorem replacer_inline_witness:
  "replacer demo_world \<lparr>pp_root = ''/'', pp_parts = [''proj'']\<rparr> (parse_path ''/proj/foo.pipeline'')
      \<lparr>mo_string = demo_src, mo_start = 0, mo_end = 19, mo_marks = [0 \<mapsto> 9, 1 \<mapsto> 10, 2 \<mapsto> 12, 3 \<mapsto> 18]\<rparr>
    = (Inr (inlined_call (b2a_base64 [1, 2, 3]) ''vertex''), [])"
  by (rule replacer_inline [where t = "''vertex''" and ext = "''.vert.spv''"]) (simp_all add: run_eval)

theorem replacer_unrecognized_witness:
  "replacer demo_world \<lparr>pp_root = ''/'', pp_parts = [''proj'']\<rparr> (parse_path ''/proj/foo.pipeline'')
      \<lparr>mo_string = demo_src, mo_start = 44, mo_end = 61, mo_marks = [0 \<mapsto> 53, 1 \<mapsto> 54, 2 \<mapsto> 56, 3 \<mapsto> 60]\<rparr>
    = (Inr ''addStage(x, mesh)'', [unrecognized_msg (Some ''mesh'')])"
proof -
  have "replacer demo_world \<lparr>pp_root = ''/'', pp_parts = [''proj'']\<rparr> (parse_path ''/proj/foo.pipeline'')
      \<lparr>mo_string = demo_src, mo_start = 44, mo_end = 61, mo_marks = [0 \<mapsto> 53, 1 \<mapsto> 54, 2 \<mapsto> 56, 3 \<mapsto> 60]\<rparr>
    = (Inr (py_str_opt (match_group \<lparr>mo_string = demo_src, mo_start = 44, mo_end = 61,
          mo_marks = [0 \<mapsto> 53, 1 \<mapsto> 54, 2 \<mapsto> 56, 3 \<mapsto> 60]\<rparr> 0)), [unrecognized_msg (Some ''mesh'')])"
    by (rule replacer_unrecognized) (simp_all add: run_eval)
  then show ?thesis by (simp add: match_group_def slice_def py_str_opt_def)
qed

theorem replacer_missing_witness:
  "replacer demo_world \<lparr>pp_root = ''/'', pp_parts = [''proj'']\<rparr> (parse_path ''/proj/foo.pipeline'')
      \<lparr>mo_string = demo_src, mo_start = 21, mo_end = 42, mo_marks = [0 \<mapsto> 30, 1 \<mapsto> 31, 2 \<mapsto> 33, 3 \<mapsto> 41]\<rparr>
    = (Inr ''addStage(f, fragment)'',
       [not_found_msg \<lparr>pp_root = ''/'', pp_parts = [''proj'', ''foo.frag.spv'']\<rparr>])"
proof -
  let ?mo = "\<lparr>mo_string = demo_src, mo_start = 21, mo_end = 42,
      mo_marks = [0 \<mapsto> 30, 1 \<mapsto> 31, 2 \<mapsto> 33, 3 \<mapsto> 41]\<rparr>"
  let ?d = "\<lparr>pp_root = ''/'', pp_parts = [''proj'']\<rparr>"
  have sf: "stage_file_of ?d (parse_path ''/proj/foo.pipeline'') ''.frag.spv''
      = \<lparr>pp_root = ''/'', pp_parts = [''proj'', ''foo.frag.spv'']\<rparr>"
    by (simp add: run_eval)
  have "replacer demo_world ?d (parse_path ''/proj/foo.pipeline'') ?mo
    = (Inr (py_str_opt (match_group ?mo 0)),
       [not_found_msg (stage_file_of ?d (parse_path ''/proj/foo.pipeline'') ''.frag.spv'')])"
    by (rule replacer_missing [where t = "''fragment''" and n = "''/proj/foo.frag.spv''"])
       (simp_all add: run_eval)
  then show ?thesis unfolding sf by (simp add: match_group_def slice_def py_str_opt_def)
qed

theorem replace_unchanged_witness:
  "replace_stage_files_with_base64 ''a.txt'' None plain_world = (Inr (), plain_world)"
  by (rule replace_unchanged [where bs = "map byte_of_char ''void main();''"])
     (simp_all add: open_read_def os_stat_def abs_parts_def parse_path_def path_root_of_def
       sublist_code)

theorem replace_frame_witness:
  "fs (snd (replace_stage_files_with_base64 ''/proj/foo.pipeline'' None demo_world)) [''proj'', ''foo.vert.spv'']
     = Some (File [1, 2, 3]) \<and>
   cwd (snd (replace_stage_files_with_base64 ''/proj/foo.pipeline'' None demo_world)) = []"
proof -
  have "cwd (snd (replace_stage_files_with_base64 ''/proj/foo.pipeline'' None demo_world)) = cwd demo_world \<and>
    (\<forall>q. q \<noteq> abs_parts demo_world (parse_path ''/proj/foo.pipeline'') \<longrightarrow>
       fs (snd (replace_stage_files_with_base64 ''/proj/foo.pipeline'' None demo_world)) q = fs demo_world q)"
    using replace_frame [of "''/proj/foo.pipeline''" None demo_world] by (metis prod.collapse)
  then show ?thesis by (simp add: abs_parts_def parse_path_def path_root_of_def)
qed

theorem replace_missing_input_witness:
  "replace_stage_files_with_base64 ''foo.pipeline'' None \<lparr>fs = Map.empty, cwd = [], stdout = []\<rparr> =
     (Inr (), \<lparr>fs = Map.empty, cwd = [], stdout = [missing_input_msg ''foo.pipeline'']\<rparr>)"
  using replace_missing_input [of "\<lparr>fs = Map.empty, cwd = [], stdout = []\<rparr>" "''foo.pipeline''" None]
  by (simp add: path_exists_def os_stat_def abs_parts_def parse_path_def path_root_of_def py_print_def)



section \<open>The spec's examples\<close>


text \<open>
  C22. A file with a vertex and a fragment call whose binaries both exist has
  both calls replaced by the base64 text of their own binary, and the text
  around them kept.
\<close>

theorem multi_stage_file:
  "replace_stage_files_with_base64 ''/proj/foo.pipeline'' None multi_world =
     (Inr (), multi_world\<lparr>fs := (fs multi_world)([''proj'', ''foo.pipeline''] \<mapsto>
        File (map byte_of_char ''a addStage(base64\"AQID\", vertex) b addStage(base64\"/w==\", fragment) c''))\<rparr>)"
proof -
  let ?p = "parse_path ''/proj/foo.pipeline''"
  let ?d = "\<lparr>pp_root = ''/'', pp_parts = [''proj'']\<rparr>"
  let ?f = "replacer multi_world ?d ?p"
  let ?m1 = "[0 \<mapsto> 11, 1 \<mapsto> 16, 2 \<mapsto> 18, 3 \<mapsto> 24]"
  let ?m2 = "[0 \<mapsto> 37, 1 \<mapsto> 42, 2 \<mapsto> 44, 3 \<mapsto> 52]"
  have rd: "open_read multi_world ''/proj/foo.pipeline'' = Inr (map byte_of_char multi_src)"
    by (simp add: open_read_def os_stat_def abs_parts_def parse_path_def path_root_of_def)
  have dec: "decode_text (map byte_of_char multi_src) = multi_src"
    by (simp add: decode_text_def)
  have d: "shader_directory_of None ?p = ?d"
    by (simp add: shader_directory_of_def py_not_str_opt_def path_parent_def parse_path_def
        path_root_of_def)
  have s0: "sre_search stage_pattern multi_src 0 ma = Some (2, 25, ?m1)"
    and s1: "sre_search stage_pattern multi_src 25 ma = Some (28, 53, ?m2)"
    and s2: "sre_search stage_pattern multi_src 53 ma = None" for ma
    by (simp_all add: sre_search_stage_pattern_eq stage_search.simps stage_call_at_def
        second_arg_at_def sre_count_def is_uni_space_def)
  have r1: "?f \<lparr>mo_string = multi_src, mo_start = 2, mo_end = 25, mo_marks = ?m1\<rparr>
      = (Inr ''addStage(base64\"AQID\", vertex)'', [])"
    and r2: "?f \<lparr>mo_string = multi_src, mo_start = 28, mo_end = 53, mo_marks = ?m2\<rparr>
      = (Inr ''addStage(base64\"/w==\", fragment)'', [])"
    by (simp_all add: run_eval)
  have sub: "sre_sub stage_pattern ?f multi_src
      = (Inr ''a addStage(base64\"AQID\", vertex) b addStage(base64\"/w==\", fragment) c'', [])"
    unfolding sre_sub_def sre_sub_loop_step [where f = ?f, OF s0 r1]
      sre_sub_loop_step [where f = ?f, OF s1 r2] sre_sub_loop_no_match [OF s2]
    by (simp add: slice_def)
  note run = replace_run [OF rd, of None, unfolded d dec, OF sub]
  show ?thesis unfolding run
    by (simp add: abs_parts_def parse_path_def path_root_of_def)
qed

section \<open>Behaviours outside the spec\<close>

text \<open>
  C18. A file without any call site is still rewritten when it has Windows
  line endings: text mode reads \<^verbatim>\<open>\r\n\<close> as \<^verbatim>\<open>\n\<close> and writes
  \<^verbatim>\<open>\n\<close> back, so \<^verbatim>\<open>a\r\nb\<close> becomes \<^verbatim>\<open>a\nb\<close>.
\<close>

theorem crlf_input_rewritten:
  "replace_stage_files_with_base64 ''a.txt'' None crlf_world =
     (Inr (), crlf_world\<lparr>fs := [[''a.txt''] \<mapsto> File (map byte_of_char [CHR ''a'', LF, CHR ''b''])]\<rparr>)"
proof -
  have rd: "open_read crlf_world ''a.txt'' = Inr (map byte_of_char [CHR ''a'', CR, LF, CHR ''b''])"
    by (simp add: open_read_def os_stat_def abs_parts_def parse_path_def path_root_of_def)
  have dec: "decode_text (map byte_of_char [CHR ''a'', CR, LF, CHR ''b'']) = [CHR ''a'', LF, CHR ''b'']"
    by (simp add: decode_text_def)
  have none: "sre_search stage_pattern [CHR ''a'', LF, CHR ''b''] 0 False = None"
    by (simp add: sre_search_stage_pattern_eq stage_search.simps stage_call_at_def)
  note run = replace_run [OF rd, unfolded dec, OF sre_sub_no_match [OF none], of None]
  show ?thesis unfolding run
    by (simp add: abs_parts_def parse_path_def path_root_of_def)
qed

text \<open>
  C19. A stray \<^verbatim>\<open>addStage(\<close> that is not followed by a comma-separated call
  is matched together with the text up to the next comma: the call
  \<^verbatim>\<open>addStage(x); f(a, vertex)\<close> is read as one call with first argument
  \<^verbatim>\<open>x); f(a\<close>, and that text is deleted by the replacement.
\<close>

theorem stray_call_swallows_text:
  "replace_stage_files_with_base64 ''/proj/foo.pipeline'' None stray_world =
     (Inr (), stray_world\<lparr>fs := (fs stray_world)([''proj'', ''foo.pipeline''] \<mapsto>
        File (map byte_of_char ''addStage(base64\"AQID\", vertex)''))\<rparr>)"
proof -
  let ?p = "parse_path ''/proj/foo.pipeline''"
  let ?d = "\<lparr>pp_root = ''/'', pp_parts = [''proj'']\<rparr>"
  let ?m = "[0 \<mapsto> 9, 1 \<mapsto> 16, 2 \<mapsto> 18, 3 \<mapsto> 24]"
  have rd: "open_read stray_world ''/proj/foo.pipeline'' = Inr (map byte_of_char stray_src)"
    by (simp add: open_read_def os_stat_def abs_parts_def parse_path_def path_root_of_def)
  have dec: "decode_text (map byte_of_char stray_src) = stray_src"
    by (simp add: decode_text_def)
  have d: "shader_directory_of None ?p = ?d"
    by (simp add: shader_directory_of_def py_not_str_opt_def path_parent_def parse_path_def
        path_root_of_def)
  have s0: "sre_search stage_pattern stray_src 0 False = Some (0, 25, ?m)"
    and s1: "sre_search stage_pattern stray_src 25 ma = None" for ma
    by (simp_all add: sre_search_stage_pattern_eq stage_search.simps stage_call_at_def
        second_arg_at_def sre_count_def is_uni_space_def)
  have r: "replacer stray_world ?d ?p \<lparr>mo_string = stray_src, mo_start = 0, mo_end = 25, mo_marks = ?m\<rparr>
      = (Inr ''addStage(base64\"AQID\", vertex)'', [])"
    by (simp add: run_eval)
  have sub: "sre_sub stage_pattern (replacer stray_world ?d ?p) stray_src
      = (Inr ''addStage(base64\"AQID\", vertex)'', [])"
    unfolding sre_sub_def sre_sub_loop_step [where f = "replacer stray_world ?d ?p", OF s0 r]
      sre_sub_loop_no_match [OF s1]
    by (simp add: slice_def)
  note run = replace_run [OF rd, of None, unfolded d dec, OF sub]
  show ?thesis unfolding run
    by (simp add: abs_parts_def parse_path_def path_root_of_def)
qed

text \<open>
  C20. A \<^verbatim>\<open>--shader-path\<close> that names a regular file makes the first
  binary lookup raise \<^verbatim>\<open>NotADirectoryError\<close>, which the callback does not
  catch: the program ends with the exception and the input is not written.
\<close>

theorem shader_path_file_raises:
  "replace_stage_files_with_base64 ''/proj/foo.pipeline'' (Some ''/proj/foo.vert.spv'') demo_world =
     (Inl (NotADirectoryError ''/proj/foo.vert.spv/foo.vert.spv''), demo_world)"
proof -
  let ?p = "parse_path ''/proj/foo.pipeline''"
  let ?d = "\<lparr>pp_root = ''/'', pp_parts = [''proj'', ''foo.vert.spv'']\<rparr>"
  have rd: "open_read demo_world ''/proj/foo.pipeline'' = Inr (map byte_of_char demo_src)"
    by (simp add: open_read_def os_stat_def abs_parts_def parse_path_def path_root_of_def)
  have dec: "decode_text (map byte_of_char demo_src) = demo_src"
    by (simp add: decode_text_def)
  have d: "shader_directory_of (Some ''/proj/foo.vert.spv'') ?p = ?d"
    by (simp add: shader_directory_of_def py_not_str_opt_def parse_path_def path_root_of_def)
  have r: "replacer demo_world ?d ?p
      \<lparr>mo_string = demo_src, mo_start = 0, mo_end = 19, mo_marks = [0 \<mapsto> 9, 1 \<mapsto> 10, 2 \<mapsto> 12, 3 \<mapsto> 18]\<rparr>
      = (Inl (NotADirectoryError ''/proj/foo.vert.spv/foo.vert.spv''), [])"
    by (simp add: run_eval)
  have sub: "sre_sub stage_pattern (replacer demo_world ?d ?p) demo_src
      = (Inl (NotADirectoryError ''/proj/foo.vert.spv/foo.vert.spv''), [])"
    unfolding sre_sub_def
    by (rule sre_sub_loop_raise [where f = "replacer demo_world ?d ?p", OF demo_search(1) r])
  note run = replace_raise [OF rd, of "Some ''/proj/foo.vert.spv''", unfolded d dec, OF sub]
  show ?thesis unfolding run by simp
qed

end
