(* ===== verification/Rerun.thy ===== *)
theory Rerun
  imports Scenarios Stage_Rewrite
begin

text \<open>
  Running the program a second time on its own output. The replacement text
  of line 57 is again a call site of the pattern, with the same stage type, so
  the callback maps every call site it produces, and every call site it keeps,
  to itself; with the engine's substitution refined by the rewrite on call
  sites (\<open>Stage_Rewrite\<close>), a second run finds nothing to change as long as
  the binaries it reads are the ones the first run read.
\<close>

section \<open>The replacement text is a call site\<close>

lemma stage_key_shape:
  "stage_extension_get st = Some x \<Longrightarrow>
     st \<noteq> [] \<and> CHR '')'' \<notin> set st \<and> CR \<notin> set st \<and> \<not> is_uni_space (hd st)"
  by (auto simp: stage_extension_get_def STAGE_EXTENSIONS_def is_uni_space_def split: if_splits)

lemma sre_count_prefix:
  assumes "\<forall>x \<in> set xs. sre_item_ok it x" and "\<not> sre_item_ok it y"
  shows "sre_count it (p @ xs @ y # zs) (length p) = length xs"
  using assms by (simp add: sre_count_def takeWhile_append2)

lemma inlined_call_call:
  assumes enc: "CHR '','' \<notin> set enc" and st: "st \<noteq> []" "CHR '')'' \<notin> set st" "\<not> is_uni_space (hd st)"
  shows "stage_call_at (inlined_call enc st) 0 =
    Some (9, 17 + length enc, 19 + length enc, 19 + length enc + length st, 20 + length enc + length st)"
proof -
  let ?Q = "CHR 0x22"
  let ?u = "inlined_call enc st"
  let ?P1 = "''addStage(''" and ?X1 = "''base64'' @ [?Q] @ enc @ [?Q]"
  let ?P2 = "''addStage(base64'' @ [?Q] @ enc @ [?Q] @ '',''"
  let ?P3 = "?P2 @ '' ''"
  have hd: "st = hd st # tl st" using st(1) by simp
  have u1: "?u = ?P1 @ ?X1 @ CHR '','' # CHR '' '' # st @ '')''"
    by (simp add: inlined_call_def)
  have u2: "?u = ?P2 @ [CHR '' ''] @ hd st # tl st @ '')''"
    using hd by (simp add: inlined_call_def)
  have u3: "?u = ?P3 @ st @ CHR '')'' # []"
    by (simp add: inlined_call_def)
  have len: "length ?u = 20 + length enc + length st" by (simp add: inlined_call_def)
  have "sre_count (NOT_LITERAL CHR '','') (?P1 @ ?X1 @ CHR '','' # CHR '' '' # st @ '')'') (length ?P1)
      = length ?X1"
    by (rule sre_count_prefix) (use enc in auto)
  from this [folded u1] have c1: "sre_count (NOT_LITERAL CHR '','') ?u 9 = 8 + length enc"
    by (simp add: numeral_eq_Suc)
  have "sre_count IN_CATEGORY_UNI_SPACE (?P2 @ [CHR '' ''] @ hd st # tl st @ '')'') (length ?P2) = 1"
    using sre_count_prefix [of "[CHR '' '']" IN_CATEGORY_UNI_SPACE "hd st" ?P2 "tl st @ '')''"] st(3)
    by (simp add: is_uni_space_def)
  from this [folded u2] have c2: "sre_count IN_CATEGORY_UNI_SPACE ?u (18 + length enc) = 1"
    by (simp add: numeral_eq_Suc)
  have "sre_count (NOT_LITERAL CHR '')'') (?P3 @ st @ CHR '')'' # []) (length ?P3) = length st"
    by (rule sre_count_prefix) (use st(2) in auto)
  from this [folded u3] have c3: "sre_count (NOT_LITERAL CHR '')'') ?u (19 + length enc) = length st"
    by (simp add: numeral_eq_Suc)
  have pre: "take 9 (drop 0 ?u) = ''addStage(''" by (simp add: inlined_call_def)
  have arg: "second_arg_at ?u (18 + length enc) =
      Some (19 + length enc, 19 + length enc + length st, 20 + length enc + length st)"
    unfolding second_arg_at_def Let_def c2 using c3 len st(1) by simp
  show ?thesis
    using pre arg len c1 by (simp add: stage_call_at_def Let_def)
qed

lemma inlined_call_slices:
  "length (inlined_call enc st) = 20 + length enc + length st \<and>
   slice (inlined_call enc st) 9 (17 + length enc) = ''base64'' @ [CHR 0x22] @ enc @ [CHR 0x22] \<and>
   slice (inlined_call enc st) (19 + length enc) (19 + length enc + length st) = st"
proof -
  let ?u = "inlined_call enc st"
  let ?X1 = "''base64'' @ [CHR 0x22] @ enc @ [CHR 0x22]"
  let ?P3 = "''addStage(base64'' @ [CHR 0x22] @ enc @ [CHR 0x22] @ '', ''"
  have u1: "?u = ''addStage('' @ ?X1 @ '', '' @ st @ '')''" by (simp add: inlined_call_def)
  have u3: "?u = ?P3 @ st @ '')''" by (simp add: inlined_call_def)
  have "slice (''addStage('' @ ?X1 @ '', '' @ st @ '')'') (length ''addStage('') (length ''addStage('' + length ?X1)
      = ?X1"
    by (simp add: slice_def)
  from this [folded u1] have s1: "slice ?u 9 (17 + length enc) = ?X1"
    by (simp add: numeral_eq_Suc)
  have "slice (?P3 @ st @ '')'') (length ?P3) (length ?P3 + length st) = st"
    by (simp add: slice_def)
  from this [folded u3] have s2: "slice ?u (19 + length enc) (19 + length enc + length st) = st"
    by (simp add: numeral_eq_Suc)
  have "length ?u = 20 + length enc + length st" by (simp add: inlined_call_def)
  with s1 s2 show ?thesis by blast
qed

lemma inlined_call_mo:
  assumes enc: "CHR '','' \<notin> set enc" and st: "st \<noteq> []" "CHR '')'' \<notin> set st" "\<not> is_uni_space (hd st)"
  shows "is_call (inlined_call enc st) \<and> match_group (call_mo (inlined_call enc st)) 2 = Some st"
  using inlined_call_call [OF enc st] inlined_call_slices [of enc st]
  by (simp add: is_call_def call_mo_def mo_of_def match_group_def)

lemma call_mo_groups:
  assumes "is_call u"
  shows "match_group (call_mo u) 0 = Some u \<and> (\<exists>st. match_group (call_mo u) 2 = Some st)"
  using assms by (auto simp: is_call_def call_mo_def mo_of_def match_group_def split: option.splits)

section \<open>The callback maps call sites to call sites it keeps\<close>

lemma replacer_groups:
  "groups_of mo = groups_of mo' \<Longrightarrow> replacer w d p mo = replacer w d p mo'"
  by (simp add: groups_of_def replacer_def)

lemma replacer_fixes_calls:
  assumes u: "is_call u" and r: "replacer w d p (call_mo u) = (Inr R, out)"
  shows "is_call R \<and> fst (replacer w d p (call_mo R)) = Inr R"
proof -
  obtain st where st: "match_group (call_mo u) 2 = Some st" and whole: "match_group (call_mo u) 0 = Some u"
    using call_mo_groups [OF u] by blast
  show ?thesis
  proof (cases "py_not_str_opt (get_extension (Some st))")
    case True
    with r st whole u show ?thesis by (simp add: replacer_def Let_def py_str_opt_def)
  next
    case False
    then obtain ext where ext: "stage_extension_get st = Some ext"
      by (auto simp: get_extension_def py_not_str_opt_def split: option.splits)
    note key = stage_key_shape [OF ext]
    show ?thesis
    proof (cases "encode_file_to_base64 w (path_str (stage_file_of d p ext))")
      case (Inl e)
      with r st whole u False ext show ?thesis
        by (cases e) (auto simp: replacer_def Let_def py_str_opt_def get_extension_def)
    next
      case (Inr enc)
      have nc: "CHR '','' \<notin> set enc"
        using Inr b2a_base64_no_delims(1)
        by (cases "open_read w (path_str (stage_file_of d p ext))") (auto simp: encode_file_to_base64_def)
      have R: "R = inlined_call enc st"
        using r st Inr False ext by (simp add: replacer_def Let_def py_str_opt_def get_extension_def)
      note im = inlined_call_mo [OF nc conjunct1 [OF key] conjunct1 [OF conjunct2 [OF key]]
          conjunct2 [OF conjunct2 [OF conjunct2 [OF key]]]]
      show ?thesis
        using im Inr False ext R by (simp add: replacer_def Let_def py_str_opt_def get_extension_def)
    qed
  qed
qed

lemma map_sum_Inr: "map_sum f g x = Inr y \<longleftrightarrow> (\<exists>z. x = Inr z \<and> y = g z)"
  by (cases x) auto

lemma replacer_result:
  assumes "replacer w d p mo = (Inr R, out)"
  shows "R = py_str_opt (match_group mo 0) \<or>
    (\<exists>st ext bs. match_group mo 2 = Some st \<and> stage_extension_get st = Some ext \<and>
       open_read w (path_str (stage_file_of d p ext)) = Inr bs \<and> R = inlined_call (b2a_base64 bs) st)"
  using assms
  by (auto simp: replacer_def Let_def py_not_str_opt_def get_extension_def encode_file_to_base64_def
      py_str_opt_def map_sum_Inr split: if_splits option.splits sum.splits py_exc.splits)

lemma replacer_no_CR:
  assumes u: "is_call u" and r: "replacer w d p (call_mo u) = (Inr R, out)" and cr: "CR \<notin> set u"
  shows "CR \<notin> set R"
proof -
  have "CR \<notin> set (b2a_base64 bs)" for bs
    using set_b2a_base64 [of bs] by (auto simp: b64_alphabet_def)
  then show ?thesis
    using replacer_result [OF r] call_mo_groups [OF u] cr stage_key_shape
    by (auto simp: py_str_opt_def inlined_call_def)
qed

section \<open>The second run reads the same binaries\<close>

lemma walk_update_file:
  "f q = Some (File x) \<Longrightarrow> q \<noteq> pre @ ps \<Longrightarrow> walk (f(q \<mapsto> File y)) pre ps = walk f pre ps"
  by (induction f pre ps rule: walk.induct) (auto split: option.splits node.splits)

lemma abs_parts_fs_stdout [simp]: "abs_parts (w\<lparr>fs := a, stdout := out\<rparr>) = abs_parts w"
  by (simp add: abs_parts_def fun_eq_iff)

lemma open_read_update_file:
  assumes "fs w q = Some (File x)" and "abs_parts w (parse_path s) \<noteq> q"
  shows "open_read (w\<lparr>fs := (fs w)(q \<mapsto> File y), stdout := out\<rparr>) s = open_read w s"
proof -
  have "os_stat (w\<lparr>fs := (fs w)(q \<mapsto> File y), stdout := out\<rparr>) (parse_path s) = os_stat w (parse_path s)"
    using walk_update_file [of "fs w" q x "[]" "abs_parts w (parse_path s)" y] assms
    by (simp add: os_stat_def)
  then show ?thesis by (simp add: open_read_def)
qed

lemma replacer_world:
  assumes "\<forall>st. open_read w' (path_str (stage_file_of d p (stage_ext st))) =
      open_read w (path_str (stage_file_of d p (stage_ext st)))"
  shows "replacer w' d p = replacer w d p"
proof
  fix mo
  show "replacer w' d p mo = replacer w d p mo"
  proof (cases "get_extension (match_group mo 2)")
    case (Some ext)
    then obtain st where "ext = stage_ext st"
      using stage_extension_get_ext by (auto simp: get_extension_def split: option.splits)
    with Some assms show ?thesis by (simp add: replacer_def Let_def encode_file_to_base64_def)
  qed (simp add: replacer_def Let_def py_not_str_opt_def)
qed

section \<open>A second run\<close>

lemma sub_stage_sub_replacer:
  "sre_sub stage_pattern (replacer w d p) t = stage_sub (replacer w d p) t"
  using sre_sub_loop_stage_sub [OF replacer_groups, where t = t and i = 0 and ma = False]
  by (simp add: sre_sub_def)

lemma replacer_idem:
  "stage_sub (replacer w d p) t = (Inr t', out) \<Longrightarrow> fst (stage_sub (replacer w d p) t') = Inr t'"
  by (rule stage_sub_idem_gen [OF replacer_groups replacer_fixes_calls])

lemma replacer_keeps_no_CR:
  "stage_sub (replacer w d p) t = (Inr t', out) \<Longrightarrow> CR \<notin> set t \<Longrightarrow> CR \<notin> set t'"
  by (rule stage_sub_char [OF replacer_groups replacer_no_CR])

lemma replace_Inr_run:
  assumes rd: "open_read w f = Inr bs"
    and run: "replace_stage_files_with_base64 f sp w = (Inr (), w')"
  obtains s' out where
    "stage_sub (replacer w (shader_directory_of sp (parse_path f)) (parse_path f)) (decode_text bs) = (Inr s', out)"
    and "w' = w\<lparr>fs := (fs w)(abs_parts w (parse_path f) \<mapsto> File (map byte_of_char s')),
                 stdout := stdout w @ out\<rparr>"
proof (cases "sre_sub stage_pattern
      (replacer w (shader_directory_of sp (parse_path f)) (parse_path f)) (decode_text bs)")
  case (Pair res out)
  show ?thesis
  proof (cases res)
    case (Inl e)
    with replace_raise [OF rd] Pair run show ?thesis by simp
  next
    case (Inr s')
    with replace_run [OF rd] Pair run that show ?thesis by (simp add: sub_stage_sub_replacer)
  qed
qed

lemma replace_rerun:
  assumes rd: "open_read w f = Inr bs"
    and run: "replace_stage_files_with_base64 f sp w = (Inr (), w')"
    and bins: "\<forall>st. abs_parts w (parse_path (path_str (stage_file_of (shader_directory_of sp (parse_path f))
        (parse_path f) (stage_ext st)))) \<noteq> abs_parts w (parse_path f)"
  shows "\<exists>out. replace_stage_files_with_base64 f sp w' = (Inr (), w'\<lparr>stdout := stdout w' @ out\<rparr>)"
proof -
  let ?d = "shader_directory_of sp (parse_path f)" and ?p = "parse_path f"
  let ?q = "abs_parts w (parse_path f)"
  obtain s' out where sub: "stage_sub (replacer w ?d ?p) (decode_text bs) = (Inr s', out)"
    and w': "w' = w\<lparr>fs := (fs w)(?q \<mapsto> File (map byte_of_char s')), stdout := stdout w @ out\<rparr>"
    using replace_Inr_run [OF rd run] by blast
  have fsq: "fs w ?q = Some (File bs)" using open_read_fs [OF rd] .
  have "\<forall>st. open_read w' (path_str (stage_file_of ?d ?p (stage_ext st))) =
      open_read w (path_str (stage_file_of ?d ?p (stage_ext st)))"
    using open_read_update_file [OF fsq] bins w' by simp
  then have rw: "replacer w' ?d ?p = replacer w ?d ?p" by (rule replacer_world)
  have "CR \<notin> set (decode_text bs)" by (simp add: decode_text_def CR_not_in_universal_newlines)
  then have nocr: "CR \<notin> set s'" using replacer_keeps_no_CR [OF sub] by blast
  have wr: "write_text w f s' = Inr (w\<lparr>fs := (fs w)(?q \<mapsto> File (map byte_of_char s'))\<rparr>)"
    using write_text_existing [OF rd] .
  have rd2: "open_read w' f = Inr (map byte_of_char s')"
    using open_read_after_write [OF wr] w' by simp
  have dec: "decode_text (map byte_of_char s') = s'"
    using nocr by (simp add: decode_text_def comp_def universal_newlines_no_CR)
  obtain out2 where sub2: "stage_sub (replacer w ?d ?p) s' = (Inr s', out2)"
    using replacer_idem [OF sub] by (cases "stage_sub (replacer w ?d ?p) s'") auto
  have "sre_sub stage_pattern (replacer w' ?d ?p) (decode_text (map byte_of_char s')) = (Inr s', out2)"
    using sub2 rw dec by (simp add: sub_stage_sub_replacer)
  from replace_run [OF rd2 this] have "replace_stage_files_with_base64 f sp w' =
      (Inr (), w'\<lparr>fs := (fs w')(abs_parts w' ?p \<mapsto> File (map byte_of_char s')), stdout := stdout w' @ out2\<rparr>)" .
  moreover have "(fs w')(abs_parts w' ?p \<mapsto> File (map byte_of_char s')) = fs w'"
    using w' by (simp add: abs_parts_def)
  ultimately show ?thesis by auto
qed

section \<open>The properties\<close>

text \<open>
  C29. On the program's own callback the engine's \<^verbatim>\<open>pattern.sub\<close> with
  the pattern of line 38 is the rewrite on call sites: every callback that
  reads only the groups of its match, as \<^verbatim>\<open>replacer\<close> does, gets the same
  result from both.
\<close>

theorem sre_sub_refines_stage_sub:
  assumes "\<And>mo mo'. groups_of mo = groups_of mo' \<Longrightarrow> f mo = f mo'"
  shows "sre_sub stage_pattern f t = stage_sub f t"
  using sre_sub_loop_stage_sub [OF assms, where t = t and i = 0 and ma = False] by (simp add: sre_sub_def)

theorem sre_sub_refines_stage_sub_witness:
  "sre_sub stage_pattern (replacer demo_world \<lparr>pp_root = ''/'', pp_parts = [''proj'']\<rparr>
      (parse_path ''/proj/foo.pipeline'')) demo_src =
   stage_sub (replacer demo_world \<lparr>pp_root = ''/'', pp_parts = [''proj'']\<rparr>
      (parse_path ''/proj/foo.pipeline'')) demo_src"
  by (rule sre_sub_refines_stage_sub [OF replacer_groups])

text \<open>
  C30. Running the program a second time on its own output changes nothing
  but standard output: the second run completes normally and writes back the
  text it read, as long as no stage binary is the input file itself.
\<close>

theorem replace_idempotent:
  assumes "open_read w f = Inr bs"
    and "replace_stage_files_with_base64 f sp w = (Inr (), w')"
    and "\<forall>st. abs_parts w (parse_path (path_str (stage_file_of (shader_directory_of sp (parse_path f))
        (parse_path f) (stage_ext st)))) \<noteq> abs_parts w (parse_path f)"
  shows "\<exists>out. replace_stage_files_with_base64 f sp w' = (Inr (), w'\<lparr>stdout := stdout w' @ out\<rparr>)"
  using replace_rerun [OF assms] .

theorem replace_idempotent_witness:
  "\<exists>out. replace_stage_files_with_base64 ''/proj/foo.pipeline'' None demo_rewritten =
     (Inr (), demo_rewritten\<lparr>stdout := stdout demo_rewritten @ out\<rparr>)"
proof -
  have run: "replace_stage_files_with_base64 ''/proj/foo.pipeline'' None demo_world = (Inr (), demo_rewritten)"
    using replace_run [OF demo_rd, of None, unfolded demo_dir, OF demo_sub]
    by (simp add: abs_parts_def parse_path_def path_root_of_def)
  have bins: "\<forall>st. abs_parts demo_world (parse_path (path_str (stage_file_of
      (shader_directory_of None (parse_path ''/proj/foo.pipeline'')) (parse_path ''/proj/foo.pipeline'')
      (stage_ext st)))) \<noteq> abs_parts demo_world (parse_path ''/proj/foo.pipeline'')"
  proof
    fix st
    show "abs_parts demo_world (parse_path (path_str (stage_file_of
      (shader_directory_of None (parse_path ''/proj/foo.pipeline'')) (parse_path ''/proj/foo.pipeline'')
      (stage_ext st)))) \<noteq> abs_parts demo_world (parse_path ''/proj/foo.pipeline'')"
      unfolding demo_dir by (cases st) (simp_all add: run_eval)
  qed
  show ?thesis using replace_idempotent [OF demo_rd run bins] .
qed

text \<open>
  C31. The replacement text of line 57 is matched again by the pattern of
  line 38 as a whole, with the base64 literal as its first group and the
  stage type as its second: the inlined call is a call site the program
  recognises, for every binary and every stage type of the table.
\<close>

theorem inlined_call_rematched:
  assumes "stage_extension_get st = Some ext"
  shows "\<exists>m. sre_search stage_pattern (inlined_call (b2a_base64 bs) st) 0 False =
      Some (0, length (inlined_call (b2a_base64 bs) st), m) \<and>
    match_group (mo_of (inlined_call (b2a_base64 bs) st) (0, length (inlined_call (b2a_base64 bs) st), m)) 1 =
      Some (''base64'' @ [CHR 0x22] @ b2a_base64 bs @ [CHR 0x22]) \<and>
    match_group (mo_of (inlined_call (b2a_base64 bs) st) (0, length (inlined_call (b2a_base64 bs) st), m)) 2 =
      Some st"
proof -
  let ?enc = "b2a_base64 bs"
  note key = stage_key_shape [OF assms]
  have call: "stage_call_at (inlined_call ?enc st) 0 = Some (9, 17 + length ?enc, 19 + length ?enc,
      19 + length ?enc + length st, 20 + length ?enc + length st)"
    using inlined_call_call [OF b2a_base64_no_delims(1)] key by blast
  note sl = inlined_call_slices [of ?enc st]
  have "stage_search (inlined_call ?enc st) 0 = Some (0, length (inlined_call ?enc st),
      [0 \<mapsto> 9, 1 \<mapsto> 17 + length ?enc, 2 \<mapsto> 19 + length ?enc, 3 \<mapsto> 19 + length ?enc + length st])"
    using call sl by (simp add: stage_search_Some)
  then show ?thesis
    using sl by (simp add: sre_search_stage_pattern_eq mo_of_def match_group_def)
qed

theorem inlined_call_rematched_witness:
  "\<exists>m. sre_search stage_pattern ''addStage(base64\"AQID\", vertex)'' 0 False = Some (0, 30, m) \<and>
    match_group (mo_of ''addStage(base64\"AQID\", vertex)'' (0, 30, m)) 1 = Some ''base64\"AQID\"'' \<and>
    match_group (mo_of ''addStage(base64\"AQID\", vertex)'' (0, 30, m)) 2 = Some ''vertex''"
proof -
  have e: "b2a_base64 [1, 2, 3] = ''AQID''"
    by (simp add: b64_char_def b64_alphabet_def sextet0_def sextet1_def sextet2_def sextet3_def)
  have i: "inlined_call ''AQID'' ''vertex'' = ''addStage(base64\"AQID\", vertex)''"
    by (simp add: inlined_call_def)
  have k: "stage_extension_get ''vertex'' = Some ''.vert.spv''"
    by (simp add: stage_extension_get_def STAGE_EXTENSIONS_def)
  have l: "length ''addStage(base64\"AQID\", vertex)'' = 30" by simp
  from inlined_call_rematched [OF k, of "[1, 2, 3]", unfolded e i l] show ?thesis by simp
qed

end
