(* ===== verification/Cli.thy ===== *)
theory Cli
  imports Scenarios
begin

text \<open>
  The command line of \<^verbatim>\<open>main\<close> (lines 69--78): the parser of lines 70--72,
  an \<^verbatim>\<open>argparse.ArgumentParser\<close> with the positional \<^verbatim>\<open>file\<close>, the
  option \<^verbatim>\<open>--shader-path\<close> and the implicit \<^verbatim>\<open>-h\<close>/\<^verbatim>\<open>--help\<close>, and
  \<^verbatim>\<open>parser.parse_args()\<close> of line 74 as CPython 3.11's \<^verbatim>\<open>argparse\<close>
  runs it for that parser: each argument is classified as an option, a
  plain argument or the \<^verbatim>\<open>--\<close> marker (\<open>parse_optional\<close>), then
  positionals and options are consumed alternately from left to right
  (\<open>parse_loop\<close>), and the required and unrecognized arguments are checked
  at the end. Help and usage errors end the program (\<^verbatim>\<open>SystemExit\<close>); the
  texts they print are not modelled, only which exit is taken and why.
\<close>

section \<open>The parser of lines 70--72\<close>

datatype py_action = Help_action | Shader_path_action

text \<open>\<^verbatim>\<open>parser._option_string_actions\<close>, in the order the options are registered.\<close>

definition option_string_actions :: "(string \<times> py_action) list" where
  "option_string_actions =
     [(''-h'', Help_action), (''--help'', Help_action), (''--shader-path'', Shader_path_action)]"

text \<open>
  An option occurrence \<open>(action, option_string, sep, explicit_arg)\<close> as
  \<^verbatim>\<open>_parse_optional\<close> returns it; no action is an unknown option.
\<close>

type_synonym opt_tuple = "py_action option \<times> string \<times> string option \<times> string option"

datatype arg_tok = Tok_A | Tok_O opt_tuple | Tok_dash

datatype arg_error =
    Ambiguous_option string "string list"
  | Ignored_explicit_argument py_action string
  | Expected_one_argument py_action
  | Required_arguments "string list"
  | Unrecognized_arguments "string list"

datatype cli_exit = Exit_help | Exit_error arg_error

record cli_ns =
  ns_file :: "string option"
  ns_shader_path :: "string option"

section \<open>Classifying the arguments\<close>

text \<open>\<^verbatim>\<open>str.partition('=')\<close>.\<close>

definition partition_eq :: "string \<Rightarrow> string \<times> string \<times> string" where
  "partition_eq s =
     (if CHR ''='' \<in> set s then (takeWhile (\<lambda>c. c \<noteq> CHR ''='') s, ''='', tl (dropWhile (\<lambda>c. c \<noteq> CHR ''='') s))
      else (s, [], []))"

definition is_py_digit :: "char \<Rightarrow> bool" where
  "is_py_digit c \<longleftrightarrow> c \<in> set ''0123456789''"

text \<open>
  \<^verbatim>\<open>^-\d+$|^-\d*\.\d+$\<close> with \<^verbatim>\<open>re.match\<close>; \<^verbatim>\<open>$\<close> also matches before a
  final newline.
\<close>

definition negative_number_body :: "string \<Rightarrow> bool" where
  "negative_number_body r \<longleftrightarrow>
     (r \<noteq> [] \<and> list_all is_py_digit r) \<or>
     (let a = takeWhile is_py_digit r; b = drop (length a) r in
      b \<noteq> [] \<and> hd b = CHR ''.'' \<and> tl b \<noteq> [] \<and> list_all is_py_digit (tl b))"

definition negative_number :: "string \<Rightarrow> bool" where
  "negative_number s \<longleftrightarrow> s \<noteq> [] \<and> hd s = CHR ''-'' \<and>
     (negative_number_body (tl s) \<or>
      (tl s \<noteq> [] \<and> last (tl s) = CHR 0x0A \<and> negative_number_body (butlast (tl s))))"

text \<open>\<^verbatim>\<open>_get_option_tuples\<close>: the options an abbreviation may stand for.\<close>

definition get_option_tuples :: "string \<Rightarrow> opt_tuple list" where
  "get_option_tuples s =
     (if s ! 1 = CHR ''-'' then
        (let (pfx, sep, explicit) = partition_eq s;
             sx = (if sep = [] then (None, None) else (Some sep, Some explicit)) in
         map (\<lambda>(os, a). (Some a, os, fst sx, snd sx))
           (filter (\<lambda>(os, a). prefix pfx os) option_string_actions))
      else
        concat (map (\<lambda>(os, a).
            if os = take 2 s then [(Some a, os, Some [], Some (drop 2 s))]
            else if prefix s os then [(Some a, os, None, None)]
            else [])
          option_string_actions))"

text \<open>
  \<^verbatim>\<open>_parse_optional\<close>: \<open>Inr None\<close> is a plain argument; the parser has no
  option that looks like a negative number.
\<close>

definition parse_optional :: "string \<Rightarrow> arg_error + opt_tuple option" where
  "parse_optional s =
     (if s = [] then Inr None
      else if hd s \<noteq> CHR ''-'' then Inr None
      else case map_of option_string_actions s of
        Some a \<Rightarrow> Inr (Some (Some a, s, None, None))
      | None \<Rightarrow>
          if length s = 1 then Inr None
          else
            (let (os, sep, explicit) = partition_eq s in
             case (if sep \<noteq> [] then map_of option_string_actions os else None) of
               Some a \<Rightarrow> Inr (Some (Some a, os, Some sep, Some explicit))
             | None \<Rightarrow>
                 (let tuples = get_option_tuples s in
                  if 1 < length tuples then Inl (Ambiguous_option s (map (\<lambda>t. fst (snd t)) tuples))
                  else if length tuples = 1 then Inr (Some (hd tuples))
                  else if negative_number s then Inr None
                  else if CHR '' '' \<in> set s then Inr None
                  else Inr (Some (None, s, None, None)))))"

text \<open>The pattern of \<^verbatim>\<open>_parse_known_args\<close>: everything after \<^verbatim>\<open>--\<close> is plain.\<close>

fun classify :: "string list \<Rightarrow> arg_error + arg_tok list" where
  "classify [] = Inr []"
| "classify (x # xs) =
     (if x = ''--'' then Inr (Tok_dash # map (\<lambda>_. Tok_A) xs)
      else case parse_optional x of
        Inl e \<Rightarrow> Inl e
      | Inr None \<Rightarrow> map_sum id (Cons Tok_A) (classify xs)
      | Inr (Some t) \<Rightarrow> map_sum id (Cons (Tok_O t)) (classify xs))"

section \<open>Consuming the arguments\<close>

text \<open>\<^verbatim>\<open>_match_argument\<close> for the positional \<^verbatim>\<open>file\<close>, pattern \<^verbatim>\<open>-*A-*\<close>.\<close>

definition positional_count :: "arg_tok list \<Rightarrow> nat option" where
  "positional_count ts =
     (let k = length (takeWhile (\<lambda>t. t = Tok_dash) ts) in
      case drop k ts of
        Tok_A # r \<Rightarrow> Some (k + 1 + length (takeWhile (\<lambda>t. t = Tok_dash) r))
      | _ \<Rightarrow> None)"

text \<open>
  \<^verbatim>\<open>consume_positionals\<close>: while \<^verbatim>\<open>file\<close> is not yet taken, it takes
  the arguments its pattern matches, less the first \<^verbatim>\<open>--\<close>.
\<close>

definition consume_positionals :: "arg_tok list \<Rightarrow> string list \<Rightarrow> nat \<Rightarrow> cli_ns \<Rightarrow> nat \<times> cli_ns" where
  "consume_positionals ts ss i ns =
     (if ns_file ns \<noteq> None then (i, ns)
      else case positional_count (drop i ts) of
        None \<Rightarrow> (i, ns)
      | Some n \<Rightarrow> (i + n, ns\<lparr>ns_file := Some (hd (remove1 ''--'' (take n (drop i ss))))\<rparr>))"

text \<open>\<^verbatim>\<open>_match_argument\<close> for an option: \<^verbatim>\<open>-h\<close> takes none, \<^verbatim>\<open>--shader-path\<close> one.\<close>

definition action_nargs :: "py_action \<Rightarrow> nat" where
  "action_nargs a = (case a of Help_action \<Rightarrow> 0 | Shader_path_action \<Rightarrow> 1)"

definition match_optional :: "py_action \<Rightarrow> arg_tok list \<Rightarrow> nat option" where
  "match_optional a ts =
     (if action_nargs a = 0 then Some 0 else case ts of Tok_A # _ \<Rightarrow> Some 1 | _ \<Rightarrow> None)"

text \<open>
  The loop of \<^verbatim>\<open>consume_optional\<close>: the actions to take with their
  arguments, the strings that go to the extras, and how many of the
  following arguments are used. A single-dash option without arguments
  followed by more characters (\<^verbatim>\<open>-hh\<close>) is read as several options.
\<close>

function consume_opt :: "py_action \<Rightarrow> string \<Rightarrow> string option \<Rightarrow> string option \<Rightarrow> arg_tok list
    \<Rightarrow> string list \<Rightarrow> (py_action \<times> string list) list
    \<Rightarrow> arg_error + (py_action \<times> string list) list \<times> string list \<times> nat" where
  "consume_opt a os sep ex ts ss acc =
     (case ex of
        Some x \<Rightarrow>
          (if action_nargs a = 0 \<and> os ! 1 \<noteq> CHR ''-'' \<and> x \<noteq> [] then
             (if (sep \<noteq> None \<and> sep \<noteq> Some []) \<or> hd x = CHR ''-'' then Inl (Ignored_explicit_argument a x)
              else
                (let os' = [hd os, hd x]; acc' = acc @ [(a, [])] in
                 case map_of option_string_actions os' of
                   Some a' \<Rightarrow>
                     (if tl x = [] then consume_opt a' os' None None ts ss acc'
                      else if hd (tl x) = CHR ''='' then consume_opt a' os' (Some ''='') (Some (tl (tl x))) ts ss acc'
                      else consume_opt a' os' (Some []) (Some (tl x)) ts ss acc')
                 | None \<Rightarrow> Inr (acc', [hd os # x], 0)))
           else if action_nargs a = 1 then Inr (acc @ [(a, [x])], [], 0)
           else Inl (Ignored_explicit_argument a x))
      | None \<Rightarrow>
          (case match_optional a ts of
             None \<Rightarrow> Inl (Expected_one_argument a)
           | Some k \<Rightarrow> Inr (acc @ [(a, take k ss)], [], k)))"
  by pat_completeness auto
termination
  by (relation "measure (\<lambda>(a, os, sep, ex, ts, ss, acc). case ex of None \<Rightarrow> 0 | Some x \<Rightarrow> Suc (length x))")
     (auto simp: length_Suc_conv)

text \<open>\<^verbatim>\<open>take_action\<close> for the options, in order: help prints and exits at once.\<close>

fun take_actions :: "(py_action \<times> string list) list \<Rightarrow> cli_ns \<Rightarrow> cli_exit + cli_ns" where
  "take_actions [] ns = Inr ns"
| "take_actions ((Help_action, _) # acts) ns = Inl Exit_help"
| "take_actions ((Shader_path_action, vs) # acts) ns =
     take_actions acts (ns\<lparr>ns_shader_path := Some (hd vs)\<rparr>)"

text \<open>The first option at or after a position.\<close>

fun opt_offset :: "arg_tok list \<Rightarrow> nat option" where
  "opt_offset [] = None"
| "opt_offset (Tok_O t # ts) = Some 0"
| "opt_offset (_ # ts) = map_option Suc (opt_offset ts)"

lemma opt_offset_less: "opt_offset ts = Some k \<Longrightarrow> k < length ts"
  by (induction ts arbitrary: k rule: opt_offset.induct) auto

text \<open>
  The main loop of \<^verbatim>\<open>_parse_known_args\<close>: positionals before the next
  option, the strings between them that no positional takes go to the
  extras, then the option; after the last option the remaining positionals.
\<close>

function parse_loop :: "arg_tok list \<Rightarrow> string list \<Rightarrow> nat \<Rightarrow> cli_ns \<Rightarrow> string list
    \<Rightarrow> cli_exit + cli_ns \<times> string list" where
  "parse_loop ts ss i ns ex =
     (case opt_offset (drop i ts) of
        None \<Rightarrow> (case consume_positionals ts ss i ns of (stop, ns') \<Rightarrow> Inr (ns', ex @ drop stop ss))
      | Some k \<Rightarrow>
          (case (if k \<noteq> 0 then consume_positionals ts ss i ns else (i, ns)) of
             (p, ns') \<Rightarrow>
               if i < p then parse_loop ts ss p ns' ex
               else
                 (let ex' = ex @ take k (drop i ss) in
                  case ts ! (i + k) of
                    Tok_O (None, os, sep, x) \<Rightarrow> parse_loop ts ss (Suc (i + k)) ns' (ex' @ [ss ! (i + k)])
                  | Tok_O (Some a, os, sep, x) \<Rightarrow>
                      (case consume_opt a os sep x (drop (Suc (i + k)) ts) (drop (Suc (i + k)) ss) [] of
                         Inl e \<Rightarrow> Inl (Exit_error e)
                       | Inr (acts, exs, n) \<Rightarrow>
                           (case take_actions acts ns' of
                              Inl h \<Rightarrow> Inl h
                            | Inr ns'' \<Rightarrow> parse_loop ts ss (Suc (i + k) + n) ns'' (ex' @ exs)))
                  | _ \<Rightarrow> Inr (ns', ex'))))"
  by pat_completeness auto
termination
  by (relation "measure (\<lambda>(ts, ss, i, ns, ex). Suc (length ts) - i)") (auto dest: opt_offset_less)

section \<open>Lines 70--78\<close>

text \<open>
  \<^verbatim>\<open>parser.parse_args()\<close> (line 74): a classification error or a usage
  error of the loop exits; then the required \<^verbatim>\<open>file\<close>, then the
  unrecognized arguments are checked.
\<close>

definition parse_args :: "string list \<Rightarrow> cli_exit + cli_args" where
  "parse_args argv =
     (case classify argv of
        Inl e \<Rightarrow> Inl (Exit_error e)
      | Inr ts \<Rightarrow>
          (case parse_loop ts argv 0 \<lparr>ns_file = None, ns_shader_path = None\<rparr> [] of
             Inl x \<Rightarrow> Inl x
           | Inr (ns, extras) \<Rightarrow>
               (case ns_file ns of
                  None \<Rightarrow> Inl (Exit_error (Required_arguments [''file'']))
                | Some f \<Rightarrow>
                    if extras \<noteq> [] then Inl (Exit_error (Unrecognized_arguments extras))
                    else Inr \<lparr>arg_file = f, arg_shader_path = ns_shader_path ns\<rparr>)))"

text \<open>\<^verbatim>\<open>main()\<close> run as a script (lines 74--78): parse, then process the file.\<close>

text \<open>Arguments that do not begin with a dash, which every parse reads as plain.\<close>

definition plain_arg :: "string \<Rightarrow> bool" where
  "plain_arg s \<longleftrightarrow> take 1 s \<noteq> ''-''"

text \<open>A command line for given arguments that the parser reads back whatever the strings are.\<close>

definition cli_argv :: "cli_args \<Rightarrow> string list" where
  "cli_argv a =
     (case arg_shader_path a of
        None \<Rightarrow> [''--'', arg_file a]
      | Some d \<Rightarrow> [''--shader-path='' @ d, ''--'', arg_file a])"

definition script_main :: "string list \<Rightarrow> world \<Rightarrow> cli_exit + (py_exc + unit) \<times> world" where
  "script_main argv w = map_sum id (\<lambda>args. main args w) (parse_args argv)"

section \<open>Evaluating the parser\<close>

declare parse_loop.simps [simp del] consume_opt.simps [simp del]

lemma parse_optional_plain: "plain_arg s \<Longrightarrow> parse_optional s = Inr None"
  by (cases s) (auto simp: plain_arg_def parse_optional_def)

lemma plain_not_dashes: "plain_arg s \<Longrightarrow> s \<noteq> ''--''" "plain_arg s \<Longrightarrow> ''--'' \<noteq> s"
  by (auto simp: plain_arg_def)

lemma classify_plain: "list_all plain_arg xs \<Longrightarrow> classify xs = Inr (map (\<lambda>_. Tok_A) xs)"
  by (induction xs) (auto simp: parse_optional_plain plain_not_dashes)

lemma classify_shader_path_eq:
  "classify ((''--shader-path='' @ d) # xs) =
     map_sum id (Cons (Tok_O (Some Shader_path_action, ''--shader-path'', Some ''='', Some d))) (classify xs)"
  by (simp add: parse_optional_def partition_eq_def option_string_actions_def)

lemmas parse_eval = parse_args_def consume_positionals_def positional_count_def match_optional_def
  action_nargs_def

lemma parse_args_cli_argv: "parse_args (cli_argv a) = Inr a"
proof (cases "arg_shader_path a")
  case None
  then show ?thesis
    by (simp add: cli_argv_def parse_eval parse_loop.simps)
next
  case (Some d)
  then have argv: "cli_argv a = [''--shader-path='' @ d, ''--'', arg_file a]" by (simp add: cli_argv_def)
  show ?thesis
    unfolding argv parse_args_def classify_shader_path_eq using Some
    by (simp add: parse_eval parse_loop.simps consume_opt.simps)
qed

lemma parse_optional_shader_path:
  "parse_optional ''--shader-path'' = Inr (Some (Some Shader_path_action, ''--shader-path'', None, None))"
  by (simp add: parse_optional_def option_string_actions_def)

lemma parse_optional_help:
  "parse_optional ''-h'' = Inr (Some (Some Help_action, ''-h'', None, None))"
  "parse_optional ''--help'' = Inr (Some (Some Help_action, ''--help'', None, None))"
  by (simp_all add: parse_optional_def option_string_actions_def)

lemmas classify_eval = parse_optional_plain plain_not_dashes parse_optional_shader_path parse_optional_help

lemma parse_args_usual_cases:
  assumes f: "plain_arg f" and d: "plain_arg d"
  shows "parse_args [f] = Inr \<lparr>arg_file = f, arg_shader_path = None\<rparr>"
    and "parse_args [f, ''--shader-path'', d] = Inr \<lparr>arg_file = f, arg_shader_path = Some d\<rparr>"
    and "parse_args [''--shader-path'', d, f] = Inr \<lparr>arg_file = f, arg_shader_path = Some d\<rparr>"
    and "parse_args [f, ''--shader-path='' @ d] = Inr \<lparr>arg_file = f, arg_shader_path = Some d\<rparr>"
proof -
  show "parse_args [f] = Inr \<lparr>arg_file = f, arg_shader_path = None\<rparr>"
    using f by (simp add: classify_eval parse_eval parse_loop.simps)
  show "parse_args [f, ''--shader-path'', d] = Inr \<lparr>arg_file = f, arg_shader_path = Some d\<rparr>"
    using f d by (simp add: classify_eval parse_eval parse_loop.simps consume_opt.simps)
  show "parse_args [''--shader-path'', d, f] = Inr \<lparr>arg_file = f, arg_shader_path = Some d\<rparr>"
    using f d by (simp add: classify_eval parse_eval parse_loop.simps consume_opt.simps)
  have c: "classify [f, ''--shader-path='' @ d] =
      Inr [Tok_A, Tok_O (Some Shader_path_action, ''--shader-path'', Some ''='', Some d)]"
    using f classify_shader_path_eq [of d "[]"] by (simp add: classify_eval)
  show "parse_args [f, ''--shader-path='' @ d] = Inr \<lparr>arg_file = f, arg_shader_path = Some d\<rparr>"
    unfolding parse_args_def c using f by (simp add: plain_not_dashes parse_eval parse_loop.simps consume_opt.simps)
qed

lemma parse_args_error_cases:
  assumes f: "plain_arg f" and g: "plain_arg g" and d: "plain_arg d"
  shows "parse_args [] = Inl (Exit_error (Required_arguments [''file'']))"
    and "parse_args [''--shader-path'', d] = Inl (Exit_error (Required_arguments [''file'']))"
    and "parse_args [f, ''--shader-path''] = Inl (Exit_error (Expected_one_argument Shader_path_action))"
    and "parse_args [f, g] = Inl (Exit_error (Unrecognized_arguments [g]))"
  using f g d by (simp_all add: classify_eval parse_eval parse_loop.simps consume_opt.simps)

lemma parse_args_last_wins:
  assumes "plain_arg f" "plain_arg d1" "plain_arg d2"
  shows "parse_args [f, ''--shader-path'', d1, ''--shader-path'', d2] =
    Inr \<lparr>arg_file = f, arg_shader_path = Some d2\<rparr>"
  using assms by (simp add: classify_eval parse_eval parse_loop.simps consume_opt.simps)

lemma opt_offset_As: "opt_offset (map (\<lambda>_. Tok_A) xs @ ts) = map_option ((+) (length xs)) (opt_offset ts)"
  by (induction xs) (simp_all add: option.map_comp comp_def option.map_ident)

lemma classify_plain_append:
  "list_all plain_arg xs \<Longrightarrow> classify (xs @ ys) = map_sum id ((@) (map (\<lambda>_. Tok_A) xs)) (classify ys)"
proof (induction xs)
  case Nil
  show ?case by (cases "classify ys") simp_all
next
  case (Cons x xs)
  then show ?case by (cases "classify ys") (simp_all add: classify_eval)
qed

lemma parse_args_help_cases:
  assumes "list_all plain_arg xs"
  shows "parse_args (xs @ [''-h'']) = Inl Exit_help"
    and "parse_args (''--help'' # xs) = Inl Exit_help"
proof -
  let ?h = "Tok_O (Some Help_action, ''-h'', None, None)"
  have c: "classify (xs @ [''-h'']) = Inr (map (\<lambda>_. Tok_A) xs @ [?h])"
    using classify_plain_append [OF assms, of "[''-h'']"] by (simp add: classify_eval)
  show "parse_args (xs @ [''-h'']) = Inl Exit_help"
  proof (cases xs)
    case Nil
    then show ?thesis by (simp add: classify_eval parse_eval parse_loop.simps consume_opt.simps)
  next
    case (Cons x xs')
    let ?ts = "map (\<lambda>_. Tok_A) xs @ [?h]"
    have o1: "opt_offset (drop 1 ?ts) = Some (length xs')" and o0: "opt_offset ?ts = Some (length xs)"
      using Cons opt_offset_As [of xs' "[?h]"] opt_offset_As [of xs "[?h]"] by simp_all
    have p0: "consume_positionals ?ts (xs @ [''-h'']) 0 \<lparr>ns_file = None, ns_shader_path = None\<rparr> =
        (1, \<lparr>ns_file = Some x, ns_shader_path = None\<rparr>)"
      using Cons assms by (cases xs') (simp_all add: parse_eval plain_not_dashes)
    have nth: "?ts ! (1 + length xs') = ?h" using Cons by (simp add: nth_append)
    have p1: "consume_positionals ?ts (xs @ [''-h'']) 1 \<lparr>ns_file = Some x, ns_shader_path = None\<rparr> =
        (1, \<lparr>ns_file = Some x, ns_shader_path = None\<rparr>)"
      by (simp add: consume_positionals_def)
    have "parse_loop ?ts (xs @ [''-h'']) 1 \<lparr>ns_file = Some x, ns_shader_path = None\<rparr> [] = Inl Exit_help"
      using o1 p1 nth unfolding parse_loop.simps [of ?ts "xs @ [''-h'']" 1]
      by (simp add: Cons consume_opt.simps parse_eval)
    moreover have "parse_loop ?ts (xs @ [''-h'']) 0 \<lparr>ns_file = None, ns_shader_path = None\<rparr> [] =
        parse_loop ?ts (xs @ [''-h'']) 1 \<lparr>ns_file = Some x, ns_shader_path = None\<rparr> []"
      using o0 p0 Cons unfolding parse_loop.simps [of ?ts "xs @ [''-h'']" 0] by simp
    ultimately show ?thesis using c by (simp add: parse_args_def)
  qed
  have "classify (''--help'' # xs) = Inr (Tok_O (Some Help_action, ''--help'', None, None) # map (\<lambda>_. Tok_A) xs)"
    using classify_plain [OF assms] by (simp add: classify_eval)
  then show "parse_args (''--help'' # xs) = Inl Exit_help"
    by (simp add: parse_eval parse_loop.simps consume_opt.simps)
qed

lemma parse_optional_abbrev:
  assumes p: "p \<noteq> []" "prefix p ''shader-path''"
  shows "parse_optional (''--'' @ p) = Inr (Some (Some Shader_path_action, ''--shader-path'', None, None))"
proof (cases "p = ''shader-path''")
  case True
  then show ?thesis by (simp add: parse_optional_def option_string_actions_def)
next
  case False
  obtain p' where p': "p = CHR ''s'' # p'" and pp: "prefix p' ''hader-path''"
    using p by (cases p) auto
  have "set p' \<subseteq> set ''hader-path''" using pp by (rule set_mono_prefix)
  then have eq: "CHR ''='' \<notin> set p'" by auto
  have ne: "p' \<noteq> ''hader-path''" using False p' by simp
  show ?thesis
    using p' pp eq ne
    by (simp add: parse_optional_def option_string_actions_def partition_eq_def get_option_tuples_def)
qed

lemma parse_args_abbrev:
  assumes "p \<noteq> []" "prefix p ''shader-path''" "plain_arg f" "plain_arg d"
  shows "parse_args [f, ''--'' @ p, d] = Inr \<lparr>arg_file = f, arg_shader_path = Some d\<rparr>"
proof -
  have "classify [f, ''--'' @ p, d] =
      Inr [Tok_A, Tok_O (Some Shader_path_action, ''--shader-path'', None, None), Tok_A]"
    using assms parse_optional_abbrev [of p] by (simp add: classify_eval)
  then show ?thesis
    using assms by (simp add: parse_args_def parse_eval parse_loop.simps consume_opt.simps plain_not_dashes)
qed

section \<open>The properties of the command line\<close>

text \<open>
  C32. Every pair of arguments can be given on the command line: the parser
  reads \<^verbatim>\<open>--shader-path=<dir> -- <file>\<close> (or \<^verbatim>\<open>-- <file>\<close>) back as
  exactly that file and directory, whatever the strings, and the script then
  runs \<^verbatim>\<open>replace_stage_files_with_base64\<close> on them.
\<close>

theorem cli_roundtrip:
  "parse_args (cli_argv a) = Inr a \<and>
   script_main (cli_argv a) w = Inr (replace_stage_files_with_base64 (arg_file a) (arg_shader_path a) w)"
  by (simp add: parse_args_cli_argv script_main_def main_def)

text \<open>
  C33. The usual command lines: a file name, with \<^verbatim>\<open>--shader-path\<close>
  before or after it, its value separate or after \<^verbatim>\<open>=\<close>, are parsed into
  that file and that shader path, for arguments that do not begin with a dash.
\<close>

theorem parse_args_usual:
  assumes "plain_arg f" and "plain_arg d"
  shows "parse_args [f] = Inr \<lparr>arg_file = f, arg_shader_path = None\<rparr> \<and>
    parse_args [f, ''--shader-path'', d] = Inr \<lparr>arg_file = f, arg_shader_path = Some d\<rparr> \<and>
    parse_args [''--shader-path'', d, f] = Inr \<lparr>arg_file = f, arg_shader_path = Some d\<rparr> \<and>
    parse_args [f, ''--shader-path='' @ d] = Inr \<lparr>arg_file = f, arg_shader_path = Some d\<rparr>"
  using parse_args_usual_cases [OF assms] by blast

theorem parse_args_usual_witness:
  "parse_args [''/proj/foo.pipeline''] = Inr \<lparr>arg_file = ''/proj/foo.pipeline'', arg_shader_path = None\<rparr> \<and>
   parse_args [''/proj/foo.pipeline'', ''--shader-path'', ''/shaders''] =
     Inr \<lparr>arg_file = ''/proj/foo.pipeline'', arg_shader_path = Some ''/shaders''\<rparr> \<and>
   parse_args [''--shader-path'', ''/shaders'', ''/proj/foo.pipeline''] =
     Inr \<lparr>arg_file = ''/proj/foo.pipeline'', arg_shader_path = Some ''/shaders''\<rparr> \<and>
   parse_args [''/proj/foo.pipeline'', ''--shader-path='' @ ''/shaders''] =
     Inr \<lparr>arg_file = ''/proj/foo.pipeline'', arg_shader_path = Some ''/shaders''\<rparr>"
  by (rule parse_args_usual) (simp_all add: plain_arg_def)

text \<open>
  C34. The usage errors: without a file the parser exits with
  \<^verbatim>\<open>the following arguments are required: file\<close>, also when a shader path
  is given; \<^verbatim>\<open>--shader-path\<close> at the end exits with
  \<^verbatim>\<open>expected one argument\<close>; a second file name exits with
  \<^verbatim>\<open>unrecognized arguments\<close>.
\<close>

theorem parse_args_usage_errors:
  assumes "plain_arg f" and "plain_arg g" and "plain_arg d"
  shows "parse_args [] = Inl (Exit_error (Required_arguments [''file''])) \<and>
    parse_args [''--shader-path'', d] = Inl (Exit_error (Required_arguments [''file''])) \<and>
    parse_args [f, ''--shader-path''] = Inl (Exit_error (Expected_one_argument Shader_path_action)) \<and>
    parse_args [f, g] = Inl (Exit_error (Unrecognized_arguments [g]))"
  using parse_args_error_cases [OF assms] by blast

theorem parse_args_usage_errors_witness:
  "parse_args [] = Inl (Exit_error (Required_arguments [''file''])) \<and>
   parse_args [''--shader-path'', ''/shaders''] = Inl (Exit_error (Required_arguments [''file''])) \<and>
   parse_args [''a.pipeline'', ''--shader-path''] = Inl (Exit_error (Expected_one_argument Shader_path_action)) \<and>
   parse_args [''a.pipeline'', ''b.pipeline''] = Inl (Exit_error (Unrecognized_arguments [''b.pipeline'']))"
  by (rule parse_args_usage_errors) (simp_all add: plain_arg_def)

text \<open>
  C35. Help comes first: \<^verbatim>\<open>-h\<close> after any plain arguments, or
  \<^verbatim>\<open>--help\<close> before them, exits with the help, even when the file is
  missing or there are too many.
\<close>

theorem parse_args_help_first:
  assumes "list_all plain_arg xs"
  shows "parse_args (xs @ [''-h'']) = Inl Exit_help \<and> parse_args (''--help'' # xs) = Inl Exit_help"
  using parse_args_help_cases [OF assms] by blast

theorem parse_args_help_first_witness:
  "parse_args [''a'', ''b'', ''-h''] = Inl Exit_help \<and> parse_args [''--help'', ''a'', ''b''] = Inl Exit_help"
  using parse_args_help_first [of "[''a'', ''b'']"] by (simp add: plain_arg_def)

text \<open>
  C36. Every non-empty prefix of \<^verbatim>\<open>--shader-path\<close> longer than
  \<^verbatim>\<open>--\<close> stands for the option (\<^verbatim>\<open>allow_abbrev\<close>).
\<close>

theorem parse_args_abbreviation:
  assumes "p \<noteq> []" and "prefix p ''shader-path''" and "plain_arg f" and "plain_arg d"
  shows "parse_args [f, ''--'' @ p, d] = Inr \<lparr>arg_file = f, arg_shader_path = Some d\<rparr>"
  using parse_args_abbrev [OF assms] .

theorem parse_args_abbreviation_witness:
  "parse_args [''a.pipeline'', ''--sh'', ''/shaders''] = Inr \<lparr>arg_file = ''a.pipeline'', arg_shader_path = Some ''/shaders''\<rparr>"
  using parse_args_abbreviation [of "''sh''" "''a.pipeline''" "''/shaders''"] by (simp add: plain_arg_def)

text \<open>C37. When \<^verbatim>\<open>--shader-path\<close> is given twice, the last one counts.\<close>

theorem parse_args_last_shader_path:
  assumes "plain_arg f" and "plain_arg d1" and "plain_arg d2"
  shows "parse_args [f, ''--shader-path'', d1, ''--shader-path'', d2] =
    Inr \<lparr>arg_file = f, arg_shader_path = Some d2\<rparr>"
  using parse_args_last_wins [OF assms] .

theorem parse_args_last_shader_path_witness:
  "parse_args [''a.pipeline'', ''--shader-path'', ''/x'', ''--shader-path'', ''/y''] =
    Inr \<lparr>arg_file = ''a.pipeline'', arg_shader_path = Some ''/y''\<rparr>"
  using parse_args_last_shader_path [of "''a.pipeline''" "''/x''" "''/y''"] by (simp add: plain_arg_def)

text \<open>
  C38. The spec's directory-override example from the command line:
  \<^verbatim>\<open>embedPipelineShaders.py /proj/foo.pipeline --shader-path=/shaders\<close>
  inlines the fragment binary of \<^verbatim>\<open>/shaders\<close>, not the one beside the
  pipeline file, and prints nothing.
\<close>

theorem script_override_example:
  "script_main [''/proj/foo.pipeline'', ''--shader-path=/shaders''] override_world =
     Inr (Inr (), override_world\<lparr>fs := (fs override_world)([''proj'', ''foo.pipeline''] \<mapsto>
        File (map byte_of_char ''addStage(base64\"AQID\", fragment);''))\<rparr>)"
proof -
  have "parse_args [''/proj/foo.pipeline'', ''--shader-path='' @ ''/shaders''] =
      Inr \<lparr>arg_file = ''/proj/foo.pipeline'', arg_shader_path = Some ''/shaders''\<rparr>"
    by (rule parse_args_usual_cases(4)) (simp_all add: plain_arg_def)
  then have "parse_args [''/proj/foo.pipeline'', ''--shader-path=/shaders''] =
      Inr \<lparr>arg_file = ''/proj/foo.pipeline'', arg_shader_path = Some ''/shaders''\<rparr>"
    by simp
  then show ?thesis
    unfolding script_main_def by (simp only: map_sum.simps main_def cli_args.select_convs override_run)
qed

end
