(* ===== verification/Spec2Isabelle.thy ===== *)
theory Spec2Isabelle
  imports Stage_Table Stage_Pattern Sre_Sub Stage_Locality Stage_Rewrite Base64 Pure_Path File_System
    Rewriter Scenarios Rerun Cli
begin

text \<open>
  \<^bold>\<open>A verification development of \<^verbatim>\<open>src/embedPipelineShaders.py\<close>.\<close>

  The program takes a pipeline description file and, in place, replaces
  every call \<^verbatim>\<open>addStage(<file>, <stage>)\<close> by
  \<^verbatim>\<open>addStage(base64"<text>", <stage>)\<close>, where the text is the base64
  encoding of the SPIR-V binary \<^verbatim>\<open><shader directory>/<stem><extension>\<close>,
  the extension is looked up from the stage type and the shader directory is
  \<^verbatim>\<open>--shader-path\<close> or the input's own directory. Its parts, and the
  theories that model them:

  \<^item> \<open>Prelude\<close>: bytes as \<^typ>\<open>8 word\<close>, the exceptions the program can
    meet (\<open>py_exc\<close>), Python slices, and the generic lemmas on lists and
    words the other theories share.
  \<^item> \<open>Stage_Table\<close>: \<^verbatim>\<open>STAGE_EXTENSIONS\<close> (lines 9--16) as an
    association list, \<^verbatim>\<open>.get\<close> as \<^const>\<open>map_of\<close>, and the truthiness test
    of line 47. The spec's stage type is a datatype with an \<open>enum\<close>
    instance; the table refines it (C14).
  \<^item> \<open>Sre\<close>: the part of CPython's regular-expression engine (\<^verbatim>\<open>_sre\<close>)
    that the pattern of line 38 exercises: the opcodes \<^verbatim>\<open>LITERAL\<close>,
    \<^verbatim>\<open>MARK\<close> and \<^verbatim>\<open>REPEAT_ONE\<close> over a negated literal or the
    Unicode whitespace category, matched with backtracking from the longest
    run down (\<open>sre_match\<close>, \<open>sre_repeat\<close>), and \<^verbatim>\<open>pattern.search\<close>
    with \<^verbatim>\<open>must_advance\<close> (\<open>sre_search\<close>). The search measure is the
    distance to the end of the subject.
  \<^item> \<open>Sre_Sub\<close>: match objects and \<^verbatim>\<open>group()\<close> (\<open>match_group\<close>), and
    \<^verbatim>\<open>pattern.sub\<close> with a callable replacement (\<open>sre_sub_loop\<close>,
    \<open>sre_sub\<close>), whose callback may print lines and may raise. The loop
    terminates by the measure twice the distance to the end plus one while
    an empty match is still allowed, which also bounds the number of
    callbacks (C24). A reference built from \<^verbatim>\<open>finditer\<close>
    (\<open>sre_finditer\<close>, \<open>sub_splice\<close>) equals the loop for callbacks that
    do not raise (C23); a callback returning the match keeps the text (C15).
  \<^item> \<open>Stage_Pattern\<close>: the compiled pattern of line 38, and a single-pass
    scanner \<open>stage_call_at\<close> / \<open>stage_search\<close> that reads a call site the
    way the spec describes it. The engine and the scanner agree (C1), every
    match has the shape the regular expression says (C10), and a text of
    length \<open>n\<close> has at most \<open>n / 13\<close> call sites (C25).
  \<^item> \<open>Stage_Locality\<close>: the scanner is local. A call site keeps its
    bounds when text is dropped before it, appended after it or cut off after
    its end, and text in front of a call site cannot start a call whose
    outcome depends on the call that follows (the gap lemma).
  \<^item> \<open>Stage_Rewrite\<close>: the abstract rewrite on call sites \<open>stage_sub\<close>
    (first call site replaced, the rest rewritten), which the engine's loop
    refines for every callback that reads only the groups of its match, and
    the generic facts about it: a callback mapping call sites to call sites
    it keeps makes it idempotent, and a character the callback never
    introduces stays out of the result.
  \<^item> \<open>Base64\<close>: \<^verbatim>\<open>base64.b64encode\<close> (line 21) as the byte-level loop of
    \<^verbatim>\<open>binascii.b2a_base64\<close>, with shifts and masks on 8-bit words, and a
    decoder as its reference: round trip (C4), length (C17), the RFC 4648
    vectors (C11).
  \<^item> \<open>Pure_Path\<close>: the \<^verbatim>\<open>pathlib\<close> operations the program uses
    (construction, \<^verbatim>\<open>parent\<close>, \<^verbatim>\<open>stem\<close>, \<^verbatim>\<open>/\<close>, \<^verbatim>\<open>str\<close>) after
    CPython's \<^verbatim>\<open>PurePosixPath\<close>; they keep paths well formed (C27).
  \<^item> \<open>File_System\<close>: the world the program acts on, a record of a file
    system (absolute paths to files and directories), the working directory
    and the lines printed; \<^verbatim>\<open>Path.exists\<close>, binary and text reads and
    the text write, each returning the exception Python raises as an
    \<open>Inl\<close> value. Text written is read back with universal newlines
    (C12, C16). A world is well formed when every entry lies in a directory.
  \<^item> \<open>Rewriter\<close>: the program proper, \<^verbatim>\<open>encode_file_to_base64\<close>,
    the callback \<^verbatim>\<open>replacer\<close>, \<^verbatim>\<open>replace_stage_files_with_base64\<close>
    and \<^verbatim>\<open>main\<close>, composed as the code composes them. The callback's
    branches (C3, C8, C9), the whole procedure on a readable input (C2), on
    a missing input (C7), on an input without call sites (C5), its frame
    (C6), where binaries are looked for (C13), that it completes when every
    binary is readable or missing (C26) and keeps the world well formed
    (C28).
  \<^item> \<open>Scenarios\<close>: the program run on small concrete worlds, the witnesses
    of the general theorems, the spec's examples (C21, C22), and three
    behaviours the spec does not describe: Windows line endings are
    rewritten (C18), a stray \<^verbatim>\<open>addStage(\<close> swallows text up to the next
    call's comma (C19), and a \<^verbatim>\<open>--shader-path\<close> that is a file ends the
    program with an uncaught \<^verbatim>\<open>NotADirectoryError\<close> (C20).
  \<^item> \<open>Cli\<close>: the command line of \<^verbatim>\<open>main\<close> (lines 69--78): the
    parser of lines 70--72 and \<^verbatim>\<open>parser.parse_args()\<close> as CPython 3.11's
    \<^verbatim>\<open>argparse\<close> runs it for that parser (\<open>classify\<close>,
    \<open>parse_optional\<close>, \<open>consume_opt\<close>, \<open>consume_positionals\<close>,
    \<open>parse_loop\<close>, \<open>parse_args\<close>), and the script entry
    \<open>script_main\<close>. Every file and directory can be passed and are read
    back exactly (C32); the usual command lines (C33); the usage errors
    (C34); help exits first (C35); abbreviations of \<^verbatim>\<open>--shader-path\<close>
    (C36); the last \<^verbatim>\<open>--shader-path\<close> counts (C37); and the spec's
    directory-override example run from the command line (C38). The parse loop is a
    \<^theory_text>\<open>function\<close> whose measure is the number of arguments not yet
    consumed.
  \<^item> \<open>Rerun\<close>: the composition of the engine, the callback and the file
    system on a second run. The engine's \<^verbatim>\<open>sub\<close> refines the rewrite on
    call sites for the program's callback (C29); the replacement text of
    line 57 is matched again whole, with the same stage type (C31); so the
    callback maps each call site it produces or keeps to itself, the output
    has no carriage return, and a second run of the program leaves the file
    system as it was (C30), which settles the spec's open question on
    idempotence for unchanged binaries. The hypothesis of C30 that no stage
    binary resolves to the input file is needed in the model because it
    resolves \<^verbatim>\<open>..\<close> lexically.

  Modelling choices. Text is decoded one character per byte (Latin-1); the
  program's default encoding is UTF-8, and the two agree on ASCII input, the
  only input for which the claims about text are stated in the examples.
  Paths are resolved lexically: \<^verbatim>\<open>..\<close> removes the previous part.
  Printing appends a line to the world's standard output. The command line is
  a list of strings, \<^verbatim>\<open>sys.argv[1:]\<close>; the digits of \<^verbatim>\<open>\d\<close> in
  \<^verbatim>\<open>argparse\<close>'s negative-number test are the ASCII digits, which are
  all the decimal digits among one-byte characters. No fuel is used
  anywhere: every loop is a terminating function.

  Not modelled. The imports of lines 3--6 have no behaviour of their own.
  Symbolic links, permissions and concurrent changes to the file system are
  outside the world record. The \<^verbatim>\<open>INFO\<close> block that \<^verbatim>\<open>sre_compile\<close>
  puts in front of the pattern only speeds up the search. Of
  \<^verbatim>\<open>argparse\<close> the help and usage texts, the program name and standard
  error are not modelled: a help or usage exit is a value of \<open>cli_exit\<close>
  that says which exit is taken and why.
\<close>

end
